theory Spec2Isabelle
  imports Complex_Main
begin

section \<open>The Dirichlet parameter store of inferactively/distributions/dirichlet.py\<close>

text \<open>
  The class \<^verbatim>\<open>Dirichlet\<close> keeps one attribute \<^verbatim>\<open>values\<close> that is either one
  float64 numpy array (the dense representation) or a one-dimensional object array whose
  slots refer to float64 arrays (the array-of-arrays representation, flag \<^verbatim>\<open>IS_AOA\<close>).
  Its methods allocate arrays, mutate arrays in place and share references, so the model
  keeps every array in an explicit store, addressed by position.

  What the model leaves out, everywhere:
  \<^item> rounding and overflow of float64 arithmetic: a finite float is a real number and
    arithmetic on finite values is exact; the special values (the two infinities and
    not-a-number) and the rules that produce them are modelled, signed zeros are not;
  \<^item> integer dtypes: a numeric array holds floats, so \<^verbatim>\<open>astype("float64")\<close> is a copy;
  \<^item> buffer sharing between a numpy view and its base: a view is a fresh array with the
    same entries (no method writes through a view);
  \<^item> the warnings numpy itself prints on a division by zero.
\<close>

subsection \<open>float64 values\<close>

datatype fl = Fin real | PInf | NInf | NaN

fun isnan :: "fl \<Rightarrow> bool" where
  "isnan NaN = True"
| "isnan _ = False"

fun isfinite :: "fl \<Rightarrow> bool" where
  "isfinite (Fin _) = True"
| "isfinite _ = False"

fun fadd :: "fl \<Rightarrow> fl \<Rightarrow> fl" where
  "fadd (Fin a) (Fin b) = Fin (a + b)"
| "fadd NaN _ = NaN"
| "fadd _ NaN = NaN"
| "fadd PInf NInf = NaN"
| "fadd NInf PInf = NaN"
| "fadd PInf _ = PInf"
| "fadd _ PInf = PInf"
| "fadd NInf _ = NInf"
| "fadd _ NInf = NInf"

fun fneg :: "fl \<Rightarrow> fl" where
  "fneg (Fin a) = Fin (- a)"
| "fneg PInf = NInf"
| "fneg NInf = PInf"
| "fneg NaN = NaN"

definition fsub :: "fl \<Rightarrow> fl \<Rightarrow> fl" where
  "fsub a b = fadd a (fneg b)"

text \<open>The sign of a nonzero finite value or of an infinity, as a float.\<close>

definition inf_of_sign :: "bool \<Rightarrow> fl" where
  "inf_of_sign neg = (if neg then NInf else PInf)"

fun fmul :: "fl \<Rightarrow> fl \<Rightarrow> fl" where
  "fmul (Fin a) (Fin b) = Fin (a * b)"
| "fmul NaN _ = NaN"
| "fmul _ NaN = NaN"
| "fmul (Fin a) PInf = (if a = 0 then NaN else inf_of_sign (a < 0))"
| "fmul (Fin a) NInf = (if a = 0 then NaN else inf_of_sign (0 < a))"
| "fmul PInf (Fin b) = (if b = 0 then NaN else inf_of_sign (b < 0))"
| "fmul NInf (Fin b) = (if b = 0 then NaN else inf_of_sign (0 < b))"
| "fmul PInf PInf = PInf"
| "fmul NInf NInf = PInf"
| "fmul PInf NInf = NInf"
| "fmul NInf PInf = NInf"

text \<open>
  Division as numpy does it on float64: a nonzero value over zero is an infinity,
  zero over zero and infinity over infinity are not-a-number, nothing raises.
\<close>

fun fdiv :: "fl \<Rightarrow> fl \<Rightarrow> fl" where
  "fdiv (Fin a) (Fin b) =
     (if b \<noteq> 0 then Fin (a / b)
      else if a = 0 then NaN
      else inf_of_sign (a < 0))"
| "fdiv NaN _ = NaN"
| "fdiv _ NaN = NaN"
| "fdiv (Fin a) PInf = Fin 0"
| "fdiv (Fin a) NInf = Fin 0"
| "fdiv PInf (Fin b) = inf_of_sign (b < 0)"
| "fdiv NInf (Fin b) = inf_of_sign (0 \<le> b)"
| "fdiv PInf PInf = NaN"
| "fdiv PInf NInf = NaN"
| "fdiv NInf PInf = NaN"
| "fdiv NInf NInf = NaN"

text \<open>\<^verbatim>\<open>np.log\<close>: minus infinity at zero, not-a-number below zero.\<close>

fun flog :: "fl \<Rightarrow> fl" where
  "flog (Fin a) = (if 0 < a then Fin (ln a) else if a = 0 then NInf else NaN)"
| "flog PInf = PInf"
| "flog NInf = NaN"
| "flog NaN = NaN"

text \<open>\<^verbatim>\<open>np.exp(-16)\<close>, the floor that \<^verbatim>\<open>remove_zeros\<close> adds.\<close>

definition exp_m16 :: fl where
  "exp_m16 = Fin (exp (- 16))"

subsection \<open>Arrays, the store of arrays, and programs over it\<close>

datatype error =
    ValueError string
  | TypeError
  | AttributeError
  | IndexError
  | Unmodelled

text \<open>
  A numpy array is either numeric (its shape and its entries in row-major order) or a
  one-dimensional object array whose slots hold \<^verbatim>\<open>None\<close> or a reference to an array.
  \<open>Unmodelled\<close> is not a Python exception: it marks an input the model does not follow
  (a 0-dimensional array where numpy would hand back a scalar, an object array nested in
  an object array, an index expression other than integers).
\<close>

datatype ndarray =
    NumArr (shape: "nat list") (data: "fl list")
  | ObjArr (slots: "nat option list")

type_synonym heap = "ndarray list"

type_synonym 'a prog = "heap \<Rightarrow> (error + 'a) \<times> heap"

definition ret :: "'a \<Rightarrow> 'a prog" where
  "ret x = (\<lambda>h. (Inr x, h))"

definition raise :: "error \<Rightarrow> 'a prog" where
  "raise e = (\<lambda>h. (Inl e, h))"

definition bnd :: "'a prog \<Rightarrow> ('a \<Rightarrow> 'b prog) \<Rightarrow> 'b prog" where
  "bnd m f = (\<lambda>h. case m h of (Inl e, h') \<Rightarrow> (Inl e, h') | (Inr x, h') \<Rightarrow> f x h')"

definition alloc :: "ndarray \<Rightarrow> nat prog" where
  "alloc obj = (\<lambda>h. (Inr (length h), h @ [obj]))"

definition load :: "nat \<Rightarrow> ndarray prog" where
  "load a = (\<lambda>h. if a < length h then (Inr (h ! a), h) else (Inl Unmodelled, h))"

definition store :: "nat \<Rightarrow> ndarray \<Rightarrow> unit prog" where
  "store a obj = (\<lambda>h. if a < length h then (Inr (), h[a := obj]) else (Inl Unmodelled, h))"

text \<open>\<^verbatim>\<open>for i in range(n): body\<close>; an exception ends the loop.\<close>

definition for_range :: "nat \<Rightarrow> (nat \<Rightarrow> unit prog) \<Rightarrow> unit prog" where
  "for_range n body = fold (\<lambda>i m. bnd m (\<lambda>_. body i)) [0..<n] (ret ())"

text \<open>Writing slot \<open>i\<close> of the object array at \<open>a\<close>: \<^verbatim>\<open>arr[i] = ref\<close>.\<close>

definition set_slot :: "nat \<Rightarrow> nat \<Rightarrow> nat option \<Rightarrow> unit prog" where
  "set_slot a i r =
     bnd (load a) (\<lambda>arr. case arr of
         ObjArr sl \<Rightarrow> if i < length sl then store a (ObjArr (sl[i := r])) else raise IndexError
       | NumArr sh dt \<Rightarrow> raise Unmodelled)"

text \<open>Reading slot \<open>i\<close> of the object array at \<open>a\<close>: \<^verbatim>\<open>arr[i]\<close>.\<close>

definition get_slot :: "nat \<Rightarrow> nat \<Rightarrow> nat option prog" where
  "get_slot a i =
     bnd (load a) (\<lambda>arr. case arr of
         ObjArr sl \<Rightarrow> if i < length sl then ret (sl ! i) else raise IndexError
       | NumArr sh dt \<Rightarrow> raise Unmodelled)"

subsection \<open>numpy on numeric arrays\<close>

type_synonym tensor = "nat list \<times> fl list"

text \<open>
  Broadcasting of two shapes, aligned at their last axes: two extents agree when they are
  equal or one of them is 1.
\<close>

fun bshape_rev :: "nat list \<Rightarrow> nat list \<Rightarrow> nat list option" where
  "bshape_rev [] ys = Some ys"
| "bshape_rev (x # xs) [] = Some (x # xs)"
| "bshape_rev (x # xs) (y # ys) =
     (if x = y \<or> y = 1 then map_option ((#) x) (bshape_rev xs ys)
      else if x = 1 then map_option ((#) y) (bshape_rev xs ys)
      else None)"

definition broadcast_shapes :: "nat list \<Rightarrow> nat list \<Rightarrow> nat list option" where
  "broadcast_shapes s1 s2 = map_option rev (bshape_rev (rev s1) (rev s2))"

text \<open>The multi-index of flat position \<open>k\<close> in a row-major array of shape \<open>sh\<close>.\<close>

fun unravel :: "nat list \<Rightarrow> nat \<Rightarrow> nat list" where
  "unravel [] k = []"
| "unravel (d # ds) k = (k div prod_list ds) # unravel ds (k mod prod_list ds)"

text \<open>
  The flat position in an operand of shape \<open>sh\<close> that a multi-index of the broadcast
  result reads: an axis of extent 1 is read at 0 whatever the index.
\<close>

fun ravel_b :: "nat list \<Rightarrow> nat list \<Rightarrow> nat" where
  "ravel_b (d # ds) (i # is) = (if d = 1 then 0 else i) * prod_list ds + ravel_b ds is"
| "ravel_b _ _ = 0"

definition bidx :: "nat list \<Rightarrow> nat list \<Rightarrow> nat \<Rightarrow> nat" where
  "bidx rs sh k = ravel_b sh (drop (length rs - length sh) (unravel rs k))"

text \<open>An elementwise binary ufunc with broadcasting; \<open>None\<close> when the shapes do not agree.\<close>

fun np_binop :: "(fl \<Rightarrow> fl \<Rightarrow> fl) \<Rightarrow> tensor \<Rightarrow> tensor \<Rightarrow> tensor option" where
  "np_binop f (s1, d1) (s2, d2) =
     (case broadcast_shapes s1 s2 of
        None \<Rightarrow> None
      | Some rs \<Rightarrow>
          Some (rs, map (\<lambda>k. f (d1 ! bidx rs s1 k) (d2 ! bidx rs s2 k)) [0..<prod_list rs]))"

text \<open>A Python or numpy scalar as an operand: a 0-dimensional tensor.\<close>

definition scalar :: "fl \<Rightarrow> tensor" where
  "scalar x = ([], [x])"

text \<open>
  \<^verbatim>\<open>np.sum(a, axis=0)\<close> for an array of shape \<open>n # rest\<close>: entry \<open>j\<close> of the result adds
  the entries \<open>j\<close>, \<open>m + j\<close>, \<open>2 m + j\<close>, ... where \<open>m\<close> is the size of a slice along axis 0.
\<close>

fun np_sum_axis0 :: "tensor \<Rightarrow> tensor" where
  "np_sum_axis0 (n # rest, dt) =
     (rest, map (\<lambda>j. foldl fadd (Fin 0) (map (\<lambda>i. dt ! (i * prod_list rest + j)) [0..<n]))
                [0..<prod_list rest])"
| "np_sum_axis0 ([], dt) = ([], dt)"

text \<open>
  A binary ufunc that returns a new array. numpy hands back a scalar instead of a
  0-dimensional array, which the model does not follow.
\<close>

definition np_binop_new :: "(fl \<Rightarrow> fl \<Rightarrow> fl) \<Rightarrow> tensor \<Rightarrow> tensor \<Rightarrow> nat prog" where
  "np_binop_new f x y =
     (case np_binop f x y of
        None \<Rightarrow> raise (ValueError ''operands could not be broadcast together'')
      | Some (sh, dt) \<Rightarrow> if sh = [] then raise Unmodelled else alloc (NumArr sh dt))"

fun ndim :: "ndarray \<Rightarrow> nat" where
  "ndim (NumArr sh dt) = length sh"
| "ndim (ObjArr sl) = 1"

text \<open>
  \<^verbatim>\<open>np.expand_dims(a, axis=1)\<close>, also written \<^verbatim>\<open>a[:, np.newaxis]\<close>: the source applies
  it to arrays of one dimension only, where the shape \<open>[n]\<close> becomes \<open>[n, 1]\<close>.
\<close>

definition expand_dims1 :: "nat \<Rightarrow> nat prog" where
  "expand_dims1 a =
     bnd (load a) (\<lambda>arr. case arr of
         NumArr sh dt \<Rightarrow> alloc (NumArr (take 1 sh @ 1 # drop 1 sh) dt)
       | ObjArr sl \<Rightarrow> raise Unmodelled)"

text \<open>\<^verbatim>\<open>a.astype("float64")\<close>: always a new array.\<close>

definition astype_float64 :: "nat \<Rightarrow> nat prog" where
  "astype_float64 a =
     bnd (load a) (\<lambda>arr. case arr of
         NumArr sh dt \<Rightarrow> alloc (NumArr sh dt)
       | ObjArr sl \<Rightarrow> raise Unmodelled)"

subsection \<open>Python values and the Dirichlet object\<close>

record dirichlet =
  IS_AOA :: bool
  "values" :: nat

datatype pyval =
    PyNone
  | PyInt int
  | PyFloat fl
  | PyStr string
  | PyList "pyval list"
  | PyTuple "pyval list"
  | PyArray nat
  | PyDirichlet dirichlet

fun is_list :: "pyval \<Rightarrow> bool" where
  "is_list (PyList xs) = True"
| "is_list _ = False"

fun is_int :: "pyval \<Rightarrow> bool" where
  "is_int (PyInt n) = True"
| "is_int _ = False"

fun int_of :: "pyval \<Rightarrow> int" where
  "int_of (PyInt n) = n"
| "int_of _ = 0"

text \<open>
  \<^verbatim>\<open>np.zeros(shape)\<close> for a Python list of extents: every extent must be an integer
  (TypeError otherwise) and none may be negative (ValueError).
\<close>

definition np_zeros :: "pyval list \<Rightarrow> nat prog" where
  "np_zeros ds =
     (if \<not> list_all is_int ds then raise TypeError
      else if list_ex (\<lambda>d. int_of d < 0) ds
        then raise (ValueError ''negative dimensions are not allowed'')
      else alloc (NumArr (map (\<lambda>d. nat (int_of d)) ds)
                         (replicate (prod_list (map (\<lambda>d. nat (int_of d)) ds)) (Fin 0))))"

subsection \<open>Construction\<close>

text \<open>One round of the loop of \<^verbatim>\<open>construct_values\<close> (lines 60 to 63).\<close>

definition construct_values_step :: "nat \<Rightarrow> nat \<Rightarrow> nat \<Rightarrow> unit prog" where
  "construct_values_step vals self_values i =
     bnd (get_slot vals i) (\<lambda>array. case array of
         None \<Rightarrow> raise AttributeError
       | Some a \<Rightarrow>
           bnd (load a) (\<lambda>arr.
           bnd (if ndim arr = 1
                then bnd (expand_dims1 a) (\<lambda>e. set_slot vals i (Some e))
                else ret ()) (\<lambda>_.
           bnd (get_slot vals i) (\<lambda>v. case v of
               None \<Rightarrow> raise AttributeError
             | Some a' \<Rightarrow> bnd (astype_float64 a') (\<lambda>c. set_slot self_values i (Some c))))))"

definition construct_values :: "pyval \<Rightarrow> dirichlet prog" where
  "construct_values vals =
     (case vals of
        PyArray a \<Rightarrow>
          bnd (load a) (\<lambda>arr. case arr of
              ObjArr sl \<Rightarrow>
                bnd (alloc (ObjArr (replicate (length sl) None))) (\<lambda>sv.
                bnd (for_range (length sl) (construct_values_step a sv)) (\<lambda>_.
                ret \<lparr>IS_AOA = True, values = sv\<rparr>))
            | NumArr sh dt \<Rightarrow>
                bnd (if length sh = 1 then expand_dims1 a else ret a) (\<lambda>a'.
                bnd (astype_float64 a') (\<lambda>sv.
                ret \<lparr>IS_AOA = False, values = sv\<rparr>)))
      | _ \<Rightarrow> raise (ValueError '':values: must be a :numpy.ndarray:''))"

text \<open>One round of the loop of \<^verbatim>\<open>construct_dims\<close> (lines 89 to 93).\<close>

definition construct_dims_step :: "pyval list \<Rightarrow> nat \<Rightarrow> nat \<Rightarrow> unit prog" where
  "construct_dims_step dims self_values i =
     (case dims ! i of
        PyList inner \<Rightarrow>
          bnd (if length inner = 1 then np_zeros [inner ! 0, PyInt 1] else np_zeros inner)
            (\<lambda>z. set_slot self_values i (Some z))
      | _ \<Rightarrow> raise TypeError)"

definition construct_dims :: "pyval \<Rightarrow> dirichlet prog" where
  "construct_dims dims =
     (case dims of
        PyList els \<Rightarrow>
          if list_ex is_list els \<and> \<not> list_all is_list els
            then raise (ValueError '':list: of :dims: must only contains :lists:'')
          else if list_ex is_list els then
            bnd (alloc (ObjArr (replicate (length els) None))) (\<lambda>sv.
            bnd (for_range (length els) (construct_dims_step els sv)) (\<lambda>_.
            ret \<lparr>IS_AOA = True, values = sv\<rparr>))
          else
            bnd (if length els = 1 then np_zeros [els ! 0, PyInt 1] else np_zeros els) (\<lambda>sv.
            ret \<lparr>IS_AOA = False, values = sv\<rparr>)
      | PyInt n \<Rightarrow>
          bnd (np_zeros [PyInt n, PyInt 1]) (\<lambda>sv. ret \<lparr>IS_AOA = False, values = sv\<rparr>)
      | _ \<Rightarrow> raise (ValueError '':dims: must be either :list: or :int:''))"

text \<open>
  \<^verbatim>\<open>Dirichlet(dims, values)\<close>. The source tests the three cases one after the other;
  after the first test at most one of them applies.
\<close>

definition init :: "pyval \<Rightarrow> pyval \<Rightarrow> dirichlet prog" where
  "init dims vals =
     (if vals \<noteq> PyNone \<and> dims \<noteq> PyNone
        then raise (ValueError ''please provide _either_ :dims: or :values:, not both'')
      else if vals = PyNone \<and> dims = PyNone
        then bnd (np_zeros [PyInt 1, PyInt 1]) (\<lambda>sv. ret \<lparr>IS_AOA = False, values = sv\<rparr>)
      else if vals \<noteq> PyNone then construct_values vals
      else construct_dims dims)"

subsection \<open>normalize, remove_zeros, contains_zeros\<close>

definition nan_to :: "fl \<Rightarrow> fl list \<Rightarrow> fl list" where
  "nan_to u dt = map (\<lambda>x. if isnan x then u else x) dt"

text \<open>
  Lines 115 to 117 (and 121 to 123) for the array at \<open>a\<close>: the column sums, the quotient
  as a new array, and the assignment of \<^verbatim>\<open>1.0 / shape[0]\<close> to the not-a-number entries
  of that new array, in place.
\<close>

definition normalize_array :: "nat \<Rightarrow> nat prog" where
  "normalize_array a =
     bnd (load a) (\<lambda>arr. case arr of
         NumArr sh dt \<Rightarrow>
           if sh = [] then raise Unmodelled
           else bnd (np_binop_new fdiv (sh, dt) (np_sum_axis0 (sh, dt))) (\<lambda>r.
                bnd (load r) (\<lambda>q.
                bnd (store r (NumArr (shape q)
                       (nan_to (fdiv (Fin 1) (Fin (real (hd (shape q))))) (data q)))) (\<lambda>_.
                ret r)))
       | ObjArr sl \<Rightarrow> raise Unmodelled)"

text \<open>One round of the loop of \<^verbatim>\<open>normalize\<close> (lines 114 to 118).\<close>

definition normalize_step :: "nat \<Rightarrow> nat \<Rightarrow> nat \<Rightarrow> unit prog" where
  "normalize_step self_values normed i =
     bnd (get_slot self_values i) (\<lambda>e. case e of
         None \<Rightarrow> raise TypeError
       | Some a \<Rightarrow> bnd (normalize_array a) (\<lambda>r. set_slot normed i (Some r)))"

definition normalize :: "dirichlet \<Rightarrow> nat prog" where
  "normalize self =
     bnd (load (values self)) (\<lambda>sv.
       if IS_AOA self then
         (case sv of
            ObjArr sl \<Rightarrow>
              bnd (alloc (ObjArr (replicate (length sl) None))) (\<lambda>normed.
              bnd (for_range (length sl) (normalize_step (values self) normed)) (\<lambda>_.
              ret normed))
          | NumArr sh dt \<Rightarrow> raise Unmodelled)
       else
         (case sv of
            NumArr sh dt \<Rightarrow>
              bnd (alloc (NumArr sh (replicate (prod_list sh) (Fin 0)))) (\<lambda>_.
              normalize_array (values self))
          | ObjArr sl \<Rightarrow> raise Unmodelled))"

text \<open>
  \<^verbatim>\<open>self.values += np.exp(-16)\<close>. On a numeric array numpy adds in place. On an object
  array it computes \<^verbatim>\<open>element + np.exp(-16)\<close> for each slot, a new array, and puts
  it into the slot.
\<close>

definition add_floor :: "fl list \<Rightarrow> fl list" where
  "add_floor dt = map (\<lambda>x. fadd x exp_m16) dt"

definition remove_zeros_step :: "nat \<Rightarrow> nat \<Rightarrow> unit prog" where
  "remove_zeros_step self_values i =
     bnd (get_slot self_values i) (\<lambda>e. case e of
         None \<Rightarrow> raise TypeError
       | Some a \<Rightarrow>
           bnd (load a) (\<lambda>arr. case arr of
               NumArr sh dt \<Rightarrow>
                 bnd (alloc (NumArr sh (add_floor dt))) (\<lambda>r.
                 set_slot self_values i (Some r))
             | ObjArr sl' \<Rightarrow> raise Unmodelled))"

definition remove_zeros :: "dirichlet \<Rightarrow> unit prog" where
  "remove_zeros self =
     bnd (load (values self)) (\<lambda>sv. case sv of
         NumArr sh dt \<Rightarrow> store (values self) (NumArr sh (add_floor dt))
       | ObjArr sl \<Rightarrow> for_range (length sl) (remove_zeros_step (values self)))"

definition has_zero :: "fl list \<Rightarrow> bool" where
  "has_zero dt = list_ex (\<lambda>x. x = Fin 0) dt"

text \<open>The loop of \<^verbatim>\<open>contains_zeros\<close> (lines 178 to 181): it returns at the first hit.\<close>

fun any_zero_from :: "heap \<Rightarrow> nat option list \<Rightarrow> error + bool" where
  "any_zero_from h [] = Inr False"
| "any_zero_from h (None # ss) = Inl AttributeError"
| "any_zero_from h (Some a # ss) =
     (if a < length h then
        (case h ! a of
           NumArr sh dt \<Rightarrow> if has_zero dt then Inr True else any_zero_from h ss
         | ObjArr sl \<Rightarrow> Inl Unmodelled)
      else Inl Unmodelled)"

definition contains_zeros :: "dirichlet \<Rightarrow> bool prog" where
  "contains_zeros self =
     bnd (load (values self)) (\<lambda>sv.
       if \<not> IS_AOA self then
         (case sv of
            NumArr sh dt \<Rightarrow> ret (has_zero dt)
          | ObjArr sl \<Rightarrow> raise Unmodelled)
       else
         (case sv of
            ObjArr sl \<Rightarrow> (\<lambda>h. (any_zero_from h sl, h))
          | NumArr sh dt \<Rightarrow> raise Unmodelled))"

subsection \<open>Indexing\<close>

text \<open>Python's index arithmetic: a negative index counts from the end.\<close>

definition py_index :: "nat \<Rightarrow> int \<Rightarrow> nat option" where
  "py_index n i =
     (let j = (if i < 0 then i + int n else i)
      in if 0 \<le> j \<and> j < int n then Some (nat j) else None)"

text \<open>
  The part of a numeric array that a tuple of integers selects, as its flat offset and
  its shape; \<open>None\<close> stands for IndexError.
\<close>

fun locate :: "nat list \<Rightarrow> int list \<Rightarrow> (nat \<times> nat list) option" where
  "locate sh [] = Some (0, sh)"
| "locate [] (i # is) = None"
| "locate (n # rest) (i # is) =
     (case py_index n i of
        None \<Rightarrow> None
      | Some j \<Rightarrow>
          (case locate rest is of
             None \<Rightarrow> None
           | Some (off, sub) \<Rightarrow> Some (j * prod_list rest + off, sub)))"

text \<open>An index expression as a list of integers, when it is an integer or a tuple of them.\<close>

fun int_key :: "pyval \<Rightarrow> int list option" where
  "int_key (PyInt i) = Some [i]"
| "int_key (PyTuple ks) = (if list_all is_int ks then Some (map int_of ks) else None)"
| "int_key _ = None"

text \<open>
  \<^verbatim>\<open>arr[key]\<close>. On an object array an integer gives the object in the slot itself. On
  a numeric array integers that fix every axis give a number, fewer give a view.
\<close>

definition index_array :: "nat \<Rightarrow> pyval \<Rightarrow> pyval prog" where
  "index_array a key =
     bnd (load a) (\<lambda>arr. case arr of
         ObjArr sl \<Rightarrow>
           (case key of
              PyInt i \<Rightarrow>
                (case py_index (length sl) i of
                   None \<Rightarrow> raise IndexError
                 | Some j \<Rightarrow> ret (case sl ! j of None \<Rightarrow> PyNone | Some e \<Rightarrow> PyArray e))
            | _ \<Rightarrow> raise Unmodelled)
       | NumArr sh dt \<Rightarrow>
           (case int_key key of
              None \<Rightarrow> raise Unmodelled
            | Some ks \<Rightarrow>
                (case locate sh ks of
                   None \<Rightarrow> raise IndexError
                 | Some (off, sub) \<Rightarrow>
                     if sub = [] then ret (PyFloat (dt ! off))
                     else bnd (alloc (NumArr sub (take (prod_list sub) (drop off dt))))
                            (\<lambda>v. ret (PyArray v)))))"

definition getitem :: "dirichlet \<Rightarrow> pyval \<Rightarrow> pyval prog" where
  "getitem self key =
     bnd (index_array (values self) key) (\<lambda>v. case v of
         PyArray a \<Rightarrow>
           bnd (load a) (\<lambda>arr.
           bnd (if ndim arr = 1 then expand_dims1 a else ret a) (\<lambda>a'.
           bnd (construct_values (PyArray a')) (\<lambda>d.
           ret (PyDirichlet d))))
       | _ \<Rightarrow> ret v)"

text \<open>
  \<^verbatim>\<open>arr[idx] = value\<close>. An object array takes the reference. A numeric array takes a
  number, cast to float and written to every selected entry, or the entries of a numeric
  array that broadcasts to the selected part (numpy drops leading axes of extent 1 of the
  right-hand side first). An array that has dimensions, assigned to a single entry, is
  left out: numpy writes the entry of a one-entry array in its older versions and raises
  in its newer ones.
\<close>

definition write_at :: "nat \<Rightarrow> fl list \<Rightarrow> fl list \<Rightarrow> fl list" where
  "write_at off new dt = take off dt @ new @ drop (off + length new) dt"

fun strip_ones :: "nat \<Rightarrow> nat list \<Rightarrow> nat list" where
  "strip_ones r (d # ds) = (if r < length (d # ds) \<and> d = 1 then strip_ones r ds else d # ds)"
| "strip_ones r [] = []"

definition assign_index :: "nat \<Rightarrow> pyval \<Rightarrow> pyval \<Rightarrow> unit prog" where
  "assign_index a idx val =
     bnd (load a) (\<lambda>arr. case arr of
         ObjArr sl \<Rightarrow>
           (case idx of
              PyInt i \<Rightarrow>
                (case py_index (length sl) i of
                   None \<Rightarrow> raise IndexError
                 | Some j \<Rightarrow>
                     (case val of
                        PyArray b \<Rightarrow> store a (ObjArr (sl[j := Some b]))
                      | PyNone \<Rightarrow> store a (ObjArr (sl[j := None]))
                      | _ \<Rightarrow> raise Unmodelled))
            | _ \<Rightarrow> raise Unmodelled)
       | NumArr sh dt \<Rightarrow>
           (case int_key idx of
              None \<Rightarrow> raise Unmodelled
            | Some ks \<Rightarrow>
                (case locate sh ks of
                   None \<Rightarrow> raise IndexError
                 | Some (off, sub) \<Rightarrow>
                     (case val of
                        PyFloat x \<Rightarrow>
                          store a (NumArr sh (write_at off (replicate (prod_list sub) x) dt))
                      | PyInt n \<Rightarrow>
                          store a (NumArr sh
                            (write_at off (replicate (prod_list sub) (Fin (real_of_int n))) dt))
                      | PyArray b \<Rightarrow>
                          bnd (load b) (\<lambda>rhs. case rhs of
                              NumArr vsh vdt \<Rightarrow>
                                if sub = [] \<and> vsh \<noteq> [] then raise Unmodelled
                                else
                                (case np_binop (\<lambda>x y. y)
                                        (sub, take (prod_list sub) (drop off dt))
                                        (strip_ones (length sub) vsh, vdt) of
                                   Some (rs, new) \<Rightarrow>
                                     if rs = sub then store a (NumArr sh (write_at off new dt))
                                     else raise (ValueError ''could not broadcast input array'')
                                 | None \<Rightarrow> raise (ValueError ''could not broadcast input array''))
                            | ObjArr sl \<Rightarrow> raise Unmodelled)
                      | _ \<Rightarrow> raise Unmodelled))))"

definition setitem :: "dirichlet \<Rightarrow> pyval \<Rightarrow> pyval \<Rightarrow> unit prog" where
  "setitem self idx val =
     assign_index (values self) idx
       (case val of PyDirichlet d \<Rightarrow> PyArray (values d) | _ \<Rightarrow> val)"

subsection \<open>wnorm and log\<close>

text \<open>
  \<^verbatim>\<open>return wA\<close> or \<^verbatim>\<open>return Dirichlet(values=wA)\<close>, as the flag says.
\<close>

definition wrap :: "bool \<Rightarrow> nat \<Rightarrow> pyval prog" where
  "wrap return_numpy a =
     (if return_numpy then ret (PyArray a)
      else bnd (construct_values (PyArray a)) (\<lambda>d. ret (PyDirichlet d)))"

text \<open>
  Lines 144 to 149 (and 155 to 160) for the array at \<open>a\<close>: a new Dirichlet object over
  it, \<^verbatim>\<open>remove_zeros\<close> on that object, then \<^verbatim>\<open>1/sum - 1/A\<close> as a new array.
\<close>

definition wnorm_array :: "nat \<Rightarrow> nat prog" where
  "wnorm_array a =
     bnd (construct_values (PyArray a)) (\<lambda>A.
     bnd (remove_zeros A) (\<lambda>_.
     bnd (load (values A)) (\<lambda>arr. case arr of
         NumArr sh dt \<Rightarrow>
           if sh = [] then raise Unmodelled
           else
             (case np_binop fdiv (scalar (Fin 1)) (np_sum_axis0 (sh, dt)) of
                None \<Rightarrow> raise (ValueError ''operands could not be broadcast together'')
              | Some nrm \<Rightarrow>
                  (case np_binop fdiv (scalar (Fin 1)) (sh, dt) of
                     None \<Rightarrow> raise (ValueError ''operands could not be broadcast together'')
                   | Some avg \<Rightarrow> np_binop_new fsub nrm avg))
       | ObjArr sl \<Rightarrow> raise Unmodelled)))"

text \<open>One round of the loop of \<^verbatim>\<open>wnorm\<close> (lines 144 to 149).\<close>

definition wnorm_step :: "dirichlet \<Rightarrow> nat \<Rightarrow> nat \<Rightarrow> unit prog" where
  "wnorm_step self wA i =
     bnd (getitem self (PyInt (int i))) (\<lambda>si. case si of
         PyDirichlet d \<Rightarrow> bnd (wnorm_array (values d)) (\<lambda>w. set_slot wA i (Some w))
       | _ \<Rightarrow> raise AttributeError)"

definition wnorm :: "dirichlet \<Rightarrow> bool \<Rightarrow> pyval prog" where
  "wnorm self return_numpy =
     (if IS_AOA self then
        bnd (load (values self)) (\<lambda>sv. case sv of
            ObjArr sl \<Rightarrow>
              bnd (alloc (ObjArr (replicate (length sl) None))) (\<lambda>wA.
              bnd (for_range (length sl) (wnorm_step self wA)) (\<lambda>_.
              wrap return_numpy wA))
          | NumArr sh dt \<Rightarrow> raise Unmodelled)
      else bnd (wnorm_array (values self)) (\<lambda>wA. wrap return_numpy wA))"

text \<open>\<^verbatim>\<open>np.copy\<close>: a new array; of an object array, a new array with the same references.\<close>

definition np_copy :: "nat \<Rightarrow> nat prog" where
  "np_copy a = bnd (load a) (\<lambda>arr. alloc arr)"

definition np_log :: "nat \<Rightarrow> nat prog" where
  "np_log a =
     bnd (load a) (\<lambda>arr. case arr of
         NumArr sh dt \<Rightarrow> if sh = [] then raise Unmodelled else alloc (NumArr sh (map flog dt))
       | ObjArr sl \<Rightarrow> raise Unmodelled)"

definition log_warning :: string where
  "log_warning =
     ''You have called :log: on a Dirichlet that contains zeros.                      We have removed zeros.''"

text \<open>
  \<^verbatim>\<open>log\<close>. The result comes with the warnings that the call gave to
  \<^verbatim>\<open>warnings.warn\<close>; a warning does not end the call.
\<close>

definition log_step :: "nat \<Rightarrow> nat \<Rightarrow> nat \<Rightarrow> unit prog" where
  "log_step self_values lv i =
     bnd (get_slot self_values i) (\<lambda>e. case e of
         None \<Rightarrow> raise TypeError
       | Some a \<Rightarrow>
           bnd (np_copy a) (\<lambda>v.
           bnd (np_log v) (\<lambda>l.
           set_slot lv i (Some l))))"

definition log_values :: "dirichlet \<Rightarrow> nat prog" where
  "log_values self =
     (if \<not> IS_AOA self then bnd (np_copy (values self)) (\<lambda>v. np_log v)
      else
        bnd (load (values self)) (\<lambda>sv. case sv of
            ObjArr sl \<Rightarrow>
              bnd (alloc (ObjArr (replicate (length sl) None))) (\<lambda>lv.
              bnd (for_range (length sl) (log_step (values self) lv)) (\<lambda>_.
              ret lv))
          | NumArr sh dt \<Rightarrow> raise Unmodelled))"

definition log_d :: "dirichlet \<Rightarrow> bool \<Rightarrow> (pyval \<times> string list) prog" where
  "log_d self return_numpy =
     bnd (contains_zeros self) (\<lambda>z.
     bnd (if z then bnd (remove_zeros self) (\<lambda>_. ret [log_warning]) else ret []) (\<lambda>warned.
     bnd (log_values self) (\<lambda>lv.
     bnd (wrap return_numpy lv) (\<lambda>r.
     ret (r, warned)))))"

definition copy :: "dirichlet \<Rightarrow> dirichlet prog" where
  "copy self = bnd (np_copy (values self)) (\<lambda>v. construct_values (PyArray v))"

subsection \<open>Arithmetic\<close>

text \<open>
  \<^verbatim>\<open>element op other\<close> for one slot of an object array, where \<open>other\<close> is a tensor:
  a new array.
\<close>

definition slot_binop :: "(fl \<Rightarrow> fl \<Rightarrow> fl) \<Rightarrow> nat option \<Rightarrow> tensor \<Rightarrow> nat prog" where
  "slot_binop f e y =
     (case e of
        None \<Rightarrow> raise TypeError
      | Some a \<Rightarrow>
          bnd (load a) (\<lambda>arr. case arr of
              NumArr sh dt \<Rightarrow> np_binop_new f (sh, dt) y
            | ObjArr sl \<Rightarrow> raise Unmodelled))"

definition slot_tensor :: "nat option \<Rightarrow> tensor prog" where
  "slot_tensor e =
     (case e of
        None \<Rightarrow> raise TypeError
      | Some a \<Rightarrow>
          bnd (load a) (\<lambda>arr. case arr of
              NumArr sh dt \<Rightarrow> ret (sh, dt)
            | ObjArr sl \<Rightarrow> raise Unmodelled))"

text \<open>
  \<^verbatim>\<open>arr op other\<close> where \<open>arr\<close> is the array at \<open>a\<close> and \<open>other\<close> a number or an array.
  Two object arrays combine slot by slot (one of length 1 is repeated); an object array
  and a number combine each slot with the number. An object array against a numeric
  array is not followed. \<^verbatim>\<open>None\<close> or a string as the operand raises TypeError at the first
  entry; an object array without slots has no entry and gives an object array without
  slots, and a numeric array without entries, where numpy gives an object array of the
  same shape, is not followed.
\<close>

definition arith_scalar_step ::
  "(fl \<Rightarrow> fl \<Rightarrow> fl) \<Rightarrow> nat option list \<Rightarrow> fl \<Rightarrow> nat \<Rightarrow> nat \<Rightarrow> unit prog" where
  "arith_scalar_step f sl x res i =
     bnd (slot_binop f (sl ! i) (scalar x)) (\<lambda>r. set_slot res i (Some r))"

definition arith_object_step ::
  "(fl \<Rightarrow> fl \<Rightarrow> fl) \<Rightarrow> nat option list \<Rightarrow> nat option list \<Rightarrow> nat \<Rightarrow> nat \<Rightarrow> nat \<Rightarrow> unit prog"
  where
  "arith_object_step f sl sl2 n res i =
     bnd (slot_tensor (sl2 ! bidx [n] [length sl2] i)) (\<lambda>y.
     bnd (slot_binop f (sl ! bidx [n] [length sl] i) y) (\<lambda>r.
     set_slot res i (Some r)))"

definition np_arith :: "(fl \<Rightarrow> fl \<Rightarrow> fl) \<Rightarrow> nat \<Rightarrow> pyval \<Rightarrow> nat prog" where
  "np_arith f a other =
     bnd (load a) (\<lambda>arr. case arr of
         NumArr sh dt \<Rightarrow>
           (case other of
              PyFloat x \<Rightarrow> np_binop_new f (sh, dt) (scalar x)
            | PyInt n \<Rightarrow> np_binop_new f (sh, dt) (scalar (Fin (real_of_int n)))
            | PyArray b \<Rightarrow>
                bnd (load b) (\<lambda>rhs. case rhs of
                    NumArr sh2 dt2 \<Rightarrow> np_binop_new f (sh, dt) (sh2, dt2)
                  | ObjArr sl2 \<Rightarrow> raise Unmodelled)
            | PyNone \<Rightarrow> if prod_list sh = 0 then raise Unmodelled else raise TypeError
            | PyStr s \<Rightarrow> if prod_list sh = 0 then raise Unmodelled else raise TypeError
            | _ \<Rightarrow> raise Unmodelled)
       | ObjArr sl \<Rightarrow>
           (case other of
              PyFloat x \<Rightarrow>
                bnd (alloc (ObjArr (replicate (length sl) None))) (\<lambda>res.
                bnd (for_range (length sl) (arith_scalar_step f sl x res)) (\<lambda>_.
                ret res))
            | PyInt n \<Rightarrow>
                bnd (alloc (ObjArr (replicate (length sl) None))) (\<lambda>res.
                bnd (for_range (length sl)
                       (arith_scalar_step f sl (Fin (real_of_int n)) res)) (\<lambda>_.
                ret res))
            | PyArray b \<Rightarrow>
                bnd (load b) (\<lambda>rhs. case rhs of
                    ObjArr sl2 \<Rightarrow>
                      (case broadcast_shapes [length sl] [length sl2] of
                         Some [n] \<Rightarrow>
                           bnd (alloc (ObjArr (replicate n None))) (\<lambda>res.
                           bnd (for_range n (arith_object_step f sl sl2 n res)) (\<lambda>_.
                           ret res))
                       | _ \<Rightarrow> raise (ValueError ''operands could not be broadcast together''))
                  | NumArr sh2 dt2 \<Rightarrow> raise Unmodelled)
            | PyNone \<Rightarrow> if sl = [] then alloc (ObjArr []) else raise TypeError
            | PyStr s \<Rightarrow> if sl = [] then alloc (ObjArr []) else raise TypeError
            | _ \<Rightarrow> raise Unmodelled))"

text \<open>
  The six operator methods share one shape: the operand is \<^verbatim>\<open>other.values\<close> when
  \<open>other\<close> is a Dirichlet object and \<open>other\<close> itself otherwise, the left operand is always
  \<^verbatim>\<open>self.values\<close>, and the result is wrapped in a new object.
\<close>

definition arith :: "(fl \<Rightarrow> fl \<Rightarrow> fl) \<Rightarrow> dirichlet \<Rightarrow> pyval \<Rightarrow> dirichlet prog" where
  "arith f self other =
     (case other of
        PyDirichlet d \<Rightarrow>
          bnd (np_arith f (values self) (PyArray (values d))) (\<lambda>v. construct_values (PyArray v))
      | _ \<Rightarrow>
          bnd (np_arith f (values self) other) (\<lambda>v. construct_values (PyArray v)))"

definition add :: "dirichlet \<Rightarrow> pyval \<Rightarrow> dirichlet prog" where
  "add self other = arith fadd self other"

definition radd :: "dirichlet \<Rightarrow> pyval \<Rightarrow> dirichlet prog" where
  "radd self other = arith fadd self other"

definition sub :: "dirichlet \<Rightarrow> pyval \<Rightarrow> dirichlet prog" where
  "sub self other = arith fsub self other"

definition rsub :: "dirichlet \<Rightarrow> pyval \<Rightarrow> dirichlet prog" where
  "rsub self other = arith fsub self other"

definition mul :: "dirichlet \<Rightarrow> pyval \<Rightarrow> dirichlet prog" where
  "mul self other = arith fmul self other"

definition rmul :: "dirichlet \<Rightarrow> pyval \<Rightarrow> dirichlet prog" where
  "rmul self other = arith fmul self other"

subsection \<open>Vocabulary of the properties\<close>

text \<open>
  A Python list of extents that \<^verbatim>\<open>np.zeros\<close> accepts, the shape it stands for, the
  zero array of a shape, and the shape that a flat list of \<^verbatim>\<open>dims\<close> resolves to.
\<close>

definition extents :: "pyval list \<Rightarrow> nat list" where
  "extents ds = map (\<lambda>d. nat (int_of d)) ds"

definition valid_extents :: "pyval list \<Rightarrow> bool" where
  "valid_extents ds = (list_all is_int ds \<and> list_all (\<lambda>d. 0 \<le> int_of d) ds)"

definition zeros :: "nat list \<Rightarrow> ndarray" where
  "zeros sh = NumArr sh (replicate (prod_list sh) (Fin 0))"

definition dense_shape :: "pyval list \<Rightarrow> nat list" where
  "dense_shape ds = (if length ds = 1 then [nat (int_of (ds ! 0)), 1] else extents ds)"

fun valid_inner :: "pyval \<Rightarrow> bool" where
  "valid_inner (PyList ds) = valid_extents ds"
| "valid_inner _ = False"

fun inner_of :: "pyval \<Rightarrow> pyval list" where
  "inner_of (PyList ds) = ds"
| "inner_of _ = []"

text \<open>No array that exists in \<open>h\<close> differs in \<open>h'\<close>; \<open>h'\<close> may hold more arrays.\<close>

definition extends :: "heap \<Rightarrow> heap \<Rightarrow> bool" where
  "extends h h' = (take (length h) h' = h)"

text \<open>
  What an address holds, read as tensors: the one tensor of a numeric array, or the
  tensors of the numeric arrays that the slots of an object array refer to; \<open>None\<close>
  when a slot is empty or refers to something else.
\<close>

definition num_at :: "heap \<Rightarrow> nat option \<Rightarrow> tensor option" where
  "num_at h s =
     (case s of
        None \<Rightarrow> None
      | Some a \<Rightarrow>
          if a < length h then (case h ! a of NumArr sh dt \<Rightarrow> Some (sh, dt) | ObjArr sl \<Rightarrow> None)
          else None)"

definition raw_tensors :: "heap \<Rightarrow> nat \<Rightarrow> tensor list option" where
  "raw_tensors h a =
     (if a < length h then
        (case h ! a of
           NumArr sh dt \<Rightarrow> Some [(sh, dt)]
         | ObjArr sl \<Rightarrow>
             if list_all (\<lambda>s. num_at h s \<noteq> None) sl then Some (map (\<lambda>s. the (num_at h s)) sl)
             else None)
      else None)"

fun is_obj :: "ndarray \<Rightarrow> bool" where
  "is_obj (ObjArr sl) = True"
| "is_obj (NumArr sh dt) = False"

text \<open>A tensor with the floor of \<^verbatim>\<open>remove_zeros\<close> added to every entry.\<close>

definition floor_tensor :: "tensor \<Rightarrow> tensor" where
  "floor_tensor t = (fst t, map (\<lambda>x. fadd x exp_m16) (snd t))"

text \<open>
  A tensor as the objects store it: at least two dimensions, and as many entries as the
  shape asks for. A well-formed Dirichlet object has a container that exists, a flag that
  agrees with the kind of the container, and well-formed tensors only; \<open>tensors\<close> are
  the tensors it holds.
\<close>

definition wf_tensor :: "tensor \<Rightarrow> bool" where
  "wf_tensor t = (2 \<le> length (fst t) \<and> length (snd t) = prod_list (fst t))"

definition wf_store :: "heap \<Rightarrow> dirichlet \<Rightarrow> bool" where
  "wf_store h d =
     (case raw_tensors h (values d) of
        None \<Rightarrow> False
      | Some ts \<Rightarrow> IS_AOA d = is_obj (h ! values d) \<and> list_all wf_tensor ts)"

definition tensors :: "heap \<Rightarrow> dirichlet \<Rightarrow> tensor list" where
  "tensors h d = the (raw_tensors h (values d))"

text \<open>
  A function applied to every entry of a tensor, and the number that a Python scalar
  stands for in arithmetic.
\<close>

definition map_tensor :: "(fl \<Rightarrow> fl) \<Rightarrow> tensor \<Rightarrow> tensor" where
  "map_tensor g t = (fst t, map g (snd t))"

fun num_val :: "pyval \<Rightarrow> fl option" where
  "num_val (PyFloat x) = Some x"
| "num_val (PyInt n) = Some (Fin (real_of_int n))"
| "num_val _ = None"

text \<open>
  The tensors of two operands combined in pairs by a broadcasting operation; the operand
  that an operator works on, which is the container of a Dirichlet object; and the
  tensors that the right-hand operand of an operator contributes, a scalar once for each
  tensor of the receiver.
\<close>

definition zip_tensors :: "(fl \<Rightarrow> fl \<Rightarrow> fl) \<Rightarrow> tensor list \<Rightarrow> tensor list \<Rightarrow> tensor list" where
  "zip_tensors f ts1 ts2 = map (\<lambda>i. the (np_binop f (ts1 ! i) (ts2 ! i))) [0..<length ts1]"

fun unwrap :: "pyval \<Rightarrow> pyval" where
  "unwrap (PyDirichlet d) = PyArray (values d)"
| "unwrap v = v"

definition operand_tensors :: "heap \<Rightarrow> nat \<Rightarrow> nat \<Rightarrow> pyval \<Rightarrow> tensor list option" where
  "operand_tensors h v n other =
     (case unwrap other of
        PyArray w \<Rightarrow> if is_obj (h ! w) = is_obj (h ! v) then raw_tensors h w else None
      | x \<Rightarrow> map_option (\<lambda>c. replicate n (scalar c)) (num_val x))"

text \<open>
  A tensor read as a matrix with the first axis as the rows and all other axes flattened
  to columns, and the sum of a column, added up from 0 in the order of the rows.
\<close>

definition rows :: "tensor \<Rightarrow> nat" where
  "rows t = hd (fst t)"

definition cols :: "tensor \<Rightarrow> nat" where
  "cols t = prod_list (tl (fst t))"

definition entry :: "tensor \<Rightarrow> nat \<Rightarrow> nat \<Rightarrow> fl" where
  "entry t i j = snd t ! (i * cols t + j)"

definition col_sum :: "tensor \<Rightarrow> nat \<Rightarrow> fl" where
  "col_sum t j = foldl fadd (Fin 0) (map (\<lambda>i. entry t i j) [0..<rows t])"

text \<open>
  What lines 121 to 123 (lines 115 to 117 for one element of an array of arrays) compute
  from one tensor: each entry divided by the sum of its column, and then every NaN
  replaced by 1 over the number of rows.
\<close>

definition normalize_tensor :: "tensor \<Rightarrow> tensor" where
  "normalize_tensor t =
     (case np_binop fdiv t (np_sum_axis0 t) of
        Some (sh, q) \<Rightarrow> (sh, nan_to (fdiv (Fin 1) (Fin (real (hd sh)))) q)
      | None \<Rightarrow> t)"

text \<open>
  What lines 156 to 160 (lines 145 to 149 for one element of an array of arrays) compute
  from one tensor: with the floor added to every entry, the inverse of the column sums
  minus the inverse of the entries.
\<close>

definition wnorm_tensor :: "tensor \<Rightarrow> tensor" where
  "wnorm_tensor t =
     (case np_binop fdiv (scalar (Fin 1)) (np_sum_axis0 (floor_tensor t)) of
        None \<Rightarrow> t
      | Some nrm \<Rightarrow>
          (case np_binop fdiv (scalar (Fin 1)) (floor_tensor t) of
             None \<Rightarrow> t
           | Some avg \<Rightarrow> (case np_binop fsub nrm avg of None \<Rightarrow> t | Some w \<Rightarrow> w)))"

text \<open>
  A tensor whose entries are all finite and not negative, and the column shape that the
  source gives to a tensor of one dimension.
\<close>

definition nonneg_tensor :: "tensor \<Rightarrow> bool" where
  "nonneg_tensor t = list_all (\<lambda>e. case e of Fin x \<Rightarrow> 0 \<le> x | _ \<Rightarrow> False) (snd t)"

definition promote :: "tensor \<Rightarrow> tensor" where
  "promote t = (if length (fst t) = 1 then (fst t @ [1], snd t) else t)"

text \<open>
  The entries that \<^verbatim>\<open>arr[idx] = value\<close> writes to a selected part of shape \<open>sel\<close>. A
  number is cast to float and repeated. A numeric array is broadcast to the part, by the
  rule of numpy for assignments. \<open>None\<close> when numpy refuses the shapes, or when the value
  is of another kind.
\<close>

definition broadcast_to :: "nat list \<Rightarrow> tensor \<Rightarrow> fl list option" where
  "broadcast_to sel t =
     (case np_binop (\<lambda>x y. y) (sel, []) (strip_ones (length sel) (fst t), snd t) of
        Some (rs, new) \<Rightarrow> if rs = sel then Some new else None
      | None \<Rightarrow> None)"

definition assigned :: "heap \<Rightarrow> nat list \<Rightarrow> pyval \<Rightarrow> fl list option" where
  "assigned h sel val =
     (case val of
        PyFloat x \<Rightarrow> Some (replicate (prod_list sel) x)
      | PyInt n \<Rightarrow> Some (replicate (prod_list sel) (Fin (real_of_int n)))
      | PyArray b \<Rightarrow>
          if b < length h then
            (case h ! b of
               NumArr vsh vdt \<Rightarrow>
                 if sel = [] \<and> vsh \<noteq> [] then None else broadcast_to sel (vsh, vdt)
             | ObjArr sl \<Rightarrow> None)
          else None
      | _ \<Rightarrow> None)"

text \<open>
  The right-hand sides that numpy refuses for a selected part of shape \<open>sel\<close>: numeric
  arrays that do not broadcast to a part that has dimensions.
\<close>

definition refused :: "heap \<Rightarrow> nat list \<Rightarrow> pyval \<Rightarrow> bool" where
  "refused h sel val =
     (case val of
        PyArray b \<Rightarrow>
          b < length h \<and> sel \<noteq> []
          \<and> (case h ! b of
                NumArr vsh vdt \<Rightarrow> broadcast_to sel (vsh, vdt) = None
              | ObjArr sl \<Rightarrow> False)
      | _ \<Rightarrow> False)"

text \<open>
  Reading \<^verbatim>\<open>s[key]\<close> in \<open>h\<close> gives a new Dense object. Its container did not exist in
  \<open>h\<close> and holds the tensor \<open>t\<close>, in column shape when \<open>t\<close> has one dimension; no array
  of \<open>h\<close> changes.
\<close>

definition reads :: "dirichlet \<Rightarrow> pyval \<Rightarrow> heap \<Rightarrow> tensor \<Rightarrow> bool" where
  "reads s key h t =
     (case getitem s key h of
        (Inr (PyDirichlet d), h') \<Rightarrow>
          \<not> IS_AOA d \<and> length h \<le> values d \<and> extends h h'
          \<and> raw_tensors h' (values d) = Some [promote t]
      | _ \<Rightarrow> False)"

section \<open>Properties\<close>

subsection \<open>Programs and loops\<close>

lemma bnd_ret [simp]: "bnd (ret x) f = f x"
  by (simp add: bnd_def ret_def)

lemma bnd_raise [simp]: "bnd (raise e) f = raise e"
  by (simp add: bnd_def raise_def)

lemma bnd_Inr: "m h = (Inr x, h1) \<Longrightarrow> bnd m f h = f x h1"
  by (simp add: bnd_def)

lemma bnd_Inl: "m h = (Inl e, h1) \<Longrightarrow> bnd m f h = (Inl e, h1)"
  by (simp add: bnd_def)

lemma for_range_0 [simp]: "for_range 0 body = ret ()"
  by (simp add: for_range_def)

lemma for_range_Suc: "for_range (Suc n) body = bnd (for_range n body) (\<lambda>_. body n)"
  by (simp add: for_range_def)

lemma for_range_inv:
  assumes init: "I 0 h0"
    and step: "\<And>i h. i < n \<Longrightarrow> I i h \<Longrightarrow> \<exists>h2. body i h = (Inr (), h2) \<and> I (Suc i) h2"
  shows "\<exists>h'. for_range n body h0 = (Inr (), h') \<and> I n h'"
proof -
  have "k \<le> n \<Longrightarrow> \<exists>h'. for_range k body h0 = (Inr (), h') \<and> I k h'" for k
  proof (induction k)
    case 0
    show ?case using init by (simp add: ret_def)
  next
    case (Suc k)
    then obtain h1 where h1: "for_range k body h0 = (Inr (), h1)" "I k h1" by auto
    from Suc.prems have "k < n" by simp
    from step [OF this h1(2)] obtain h2 where "body k h1 = (Inr (), h2)" "I (Suc k) h2" by auto
    with h1 show ?case by (simp add: for_range_Suc bnd_Inr)
  qed
  then show ?thesis by simp
qed

lemma fill_loop:
  assumes r: "r < length h1" "h1 ! r = ObjArr sl1" "length sl1 = n"
    and step: "\<And>i h sl. i < n \<Longrightarrow> length h1 \<le> length h
        \<Longrightarrow> (\<forall>a<length h1. a \<noteq> r \<longrightarrow> h ! a = h1 ! a)
        \<Longrightarrow> h ! r = ObjArr sl \<Longrightarrow> length sl = n
        \<Longrightarrow> (\<forall>k. i \<le> k \<longrightarrow> k < n \<longrightarrow> sl ! k = sl1 ! k)
        \<Longrightarrow> \<exists>ys a. body i h = (Inr (), (h @ ys)[r := ObjArr (sl[i := Some a])])
              \<and> length h \<le> a \<and> a < length h + length ys \<and> Q i ((h @ ys) ! a)"
  shows "\<exists>h' sl'. for_range n body h1 = (Inr (), h') \<and> length h1 \<le> length h'
           \<and> (\<forall>a<length h1. a \<noteq> r \<longrightarrow> h' ! a = h1 ! a)
           \<and> h' ! r = ObjArr sl' \<and> length sl' = n
           \<and> (\<forall>k<n. \<exists>a. sl' ! k = Some a \<and> length h1 \<le> a \<and> a < length h' \<and> Q k (h' ! a))"
proof -
  define I where "I = (\<lambda>i h. length h1 \<le> length h
       \<and> (\<forall>a<length h1. a \<noteq> r \<longrightarrow> h ! a = h1 ! a)
       \<and> (\<exists>sl. h ! r = ObjArr sl \<and> length sl = n
             \<and> (\<forall>k. i \<le> k \<longrightarrow> k < n \<longrightarrow> sl ! k = sl1 ! k)
             \<and> (\<forall>k<i. \<exists>a. sl ! k = Some a \<and> length h1 \<le> a \<and> a < length h \<and> Q k (h ! a))))"
  have I0: "I 0 h1" using r by (simp add: I_def)
  have Istep: "\<exists>h2. body i h = (Inr (), h2) \<and> I (Suc i) h2" if "i < n" "I i h" for i h
  proof -
    from that(2) obtain sl where len: "length h1 \<le> length h"
      and old: "\<forall>a<length h1. a \<noteq> r \<longrightarrow> h ! a = h1 ! a"
      and sl: "h ! r = ObjArr sl" "length sl = n"
      and rest: "\<forall>k. i \<le> k \<longrightarrow> k < n \<longrightarrow> sl ! k = sl1 ! k"
      and filled: "\<forall>k<i. \<exists>a. sl ! k = Some a \<and> length h1 \<le> a \<and> a < length h \<and> Q k (h ! a)"
      by (auto simp: I_def)
    from step [OF that(1) len old sl rest] obtain ys a
      where b: "body i h = (Inr (), (h @ ys)[r := ObjArr (sl[i := Some a])])"
        and a: "length h \<le> a" "a < length h + length ys" "Q i ((h @ ys) ! a)" by blast
    let ?h2 = "(h @ ys)[r := ObjArr (sl[i := Some a])]"
    have rh: "r < length h" using r(1) len by simp
    have 1: "length h1 \<le> length ?h2" using len by simp
    have 2: "\<forall>b<length h1. b \<noteq> r \<longrightarrow> ?h2 ! b = h1 ! b"
      using old len by (simp add: nth_append)
    have 3: "?h2 ! r = ObjArr (sl[i := Some a])" using rh by simp
    have 4: "\<forall>k. Suc i \<le> k \<longrightarrow> k < n \<longrightarrow> (sl[i := Some a]) ! k = sl1 ! k"
      using rest by simp
    have 5: "\<exists>b. (sl[i := Some a]) ! k = Some b \<and> length h1 \<le> b \<and> b < length ?h2 \<and> Q k (?h2 ! b)"
      if "k < Suc i" for k
    proof (cases "k = i")
      case True
      have "a \<noteq> r" using a(1) rh by simp
      then show ?thesis using True a len sl(2) \<open>i < n\<close> by simp
    next
      case False
      with that have "k < i" by simp
      with filled obtain b where b: "sl ! k = Some b" "length h1 \<le> b" "b < length h" "Q k (h ! b)"
        by blast
      have "b \<noteq> r" using b(2) r(1) by simp
      then show ?thesis using False b by (simp add: nth_append)
    qed
    show ?thesis unfolding I_def using b 1 2 3 4 5 sl(2) by auto
  qed
  from for_range_inv [of I h1 n body, OF I0 Istep] obtain h' where
    "for_range n body h1 = (Inr (), h')" "I n h'" by blast
  then show ?thesis unfolding I_def by auto
qed

subsection \<open>Broadcasting\<close>

lemma bshape_rev_append_l: "bshape_rev (xs @ zs) xs = Some (xs @ zs)"
proof (induction xs)
  case Nil
  show ?case by (cases zs) simp_all
next
  case (Cons x xs)
  then show ?case by simp
qed

lemma bshape_rev_append_r: "bshape_rev xs (xs @ zs) = Some (xs @ zs)"
  by (induction xs) simp_all

lemma broadcast_shapes_same [simp]: "broadcast_shapes s s = Some s"
  using bshape_rev_append_l [of "rev s" "[]"] by (simp add: broadcast_shapes_def)

lemma broadcast_shapes_tail_r [simp]: "broadcast_shapes (n # rest) rest = Some (n # rest)"
  using bshape_rev_append_l [of "rev rest" "[n]"] by (simp add: broadcast_shapes_def)

lemma broadcast_shapes_tail_l [simp]: "broadcast_shapes rest (n # rest) = Some (n # rest)"
  using bshape_rev_append_r [of "rev rest" "[n]"] by (simp add: broadcast_shapes_def)

lemma broadcast_shapes_nil_r [simp]: "broadcast_shapes s [] = Some s"
  using bshape_rev_append_l [of "[]" "rev s"] by (simp add: broadcast_shapes_def)

lemma broadcast_shapes_nil_l [simp]: "broadcast_shapes [] s = Some s"
  by (simp add: broadcast_shapes_def)

lemma ravel_unravel: "k < prod_list s \<Longrightarrow> ravel_b s (unravel s k) = k"
proof (induction s arbitrary: k)
  case Nil
  then show ?case by simp
next
  case (Cons d ds)
  from Cons.prems have pos: "0 < prod_list ds" by (cases "prod_list ds = 0") simp_all
  then have "k mod prod_list ds < prod_list ds" by simp
  with Cons.IH have ih: "ravel_b ds (unravel ds (k mod prod_list ds)) = k mod prod_list ds" .
  show ?case
  proof (cases "d = 1")
    case True
    with Cons.prems have "k < prod_list ds" by simp
    with True ih show ?thesis by simp
  next
    case False
    with ih show ?thesis by simp
  qed
qed

lemma length_unravel [simp]: "length (unravel s k) = length s"
  by (induction s arbitrary: k) simp_all

lemma bidx_same: "k < prod_list s \<Longrightarrow> bidx s s k = k"
  by (simp add: bidx_def ravel_unravel)

lemma bidx_nil [simp]: "bidx rs [] k = 0"
  by (simp add: bidx_def)

lemma bidx_tail: "k < n * prod_list rest \<Longrightarrow> bidx (n # rest) rest k = k mod prod_list rest"
proof -
  assume k: "k < n * prod_list rest"
  then have "0 < prod_list rest" by (cases "prod_list rest = 0") simp_all
  then have "k mod prod_list rest < prod_list rest" by simp
  then show ?thesis by (simp add: bidx_def ravel_unravel)
qed

lemma map_upt_nth: "length d = n \<Longrightarrow> map (\<lambda>k. g (d ! k)) [0..<n] = map g d"
  by (auto simp: list_eq_iff_nth_eq)

lemma np_binop_scalar_r:
  "length d = prod_list s \<Longrightarrow> np_binop f (s, d) (scalar x) = Some (s, map (\<lambda>e. f e x) d)"
  by (simp add: scalar_def bidx_same list_eq_iff_nth_eq)

lemma np_binop_scalar_l:
  "length d = prod_list s \<Longrightarrow> np_binop f (scalar x) (s, d) = Some (s, map (f x) d)"
  by (simp add: scalar_def bidx_same list_eq_iff_nth_eq)

lemma np_binop_same:
  "length d1 = prod_list s \<Longrightarrow> length d2 = prod_list s
   \<Longrightarrow> np_binop f (s, d1) (s, d2) = Some (s, map (\<lambda>k. f (d1 ! k) (d2 ! k)) [0..<prod_list s])"
  by (simp add: bidx_same cong: map_cong)

lemma np_binop_axis0_r:
  "np_binop f (n # rest, d) (rest, c) =
     Some (n # rest, map (\<lambda>k. f (d ! k) (c ! (k mod prod_list rest))) [0..<n * prod_list rest])"
  by (simp add: bidx_same bidx_tail cong: map_cong)

lemma np_binop_axis0_l:
  "np_binop f (rest, c) (n # rest, d) =
     Some (n # rest, map (\<lambda>k. f (c ! (k mod prod_list rest)) (d ! k)) [0..<n * prod_list rest])"
  by (simp add: bidx_same bidx_tail cong: map_cong)

subsection \<open>Construction from dims\<close>

lemma np_zeros_ok:
  "valid_extents ds \<Longrightarrow> np_zeros ds h = (Inr (length h), h @ [zeros (extents ds)])"
  by (auto simp: np_zeros_def valid_extents_def zeros_def extents_def alloc_def
      list_all_iff list_ex_iff)

lemma np_zeros_dense:
  assumes "valid_extents ds"
  shows "(if length ds = 1 then np_zeros [ds ! 0, PyInt 1] else np_zeros ds) h
         = (Inr (length h), h @ [zeros (dense_shape ds)])"
proof (cases "length ds = 1")
  case True
  then obtain d where ds: "ds = [d]" by (cases ds) auto
  with assms have "valid_extents [d, PyInt 1]" by (simp add: valid_extents_def)
  from np_zeros_ok [OF this] ds show ?thesis by (simp add: dense_shape_def extents_def)
next
  case False
  with np_zeros_ok [OF assms] show ?thesis by (simp add: dense_shape_def)
qed

lemma init_both:
  "vals \<noteq> PyNone \<Longrightarrow> dims \<noteq> PyNone \<Longrightarrow>
   init dims vals h = (Inl (ValueError ''please provide _either_ :dims: or :values:, not both''), h)"
  by (simp add: init_def raise_def)

lemma init_neither:
  "init PyNone PyNone h = (Inr \<lparr>IS_AOA = False, values = length h\<rparr>, h @ [NumArr [1, 1] [Fin 0]])"
  by (simp add: init_def np_zeros_def alloc_def bnd_def ret_def)

lemma init_bad_dims:
  "\<not> is_list dims \<Longrightarrow> \<not> is_int dims \<Longrightarrow> dims \<noteq> PyNone \<Longrightarrow>
   init dims PyNone h = (Inl (ValueError '':dims: must be either :list: or :int:''), h)"
  by (cases dims) (simp_all add: init_def construct_dims_def raise_def)

lemma init_mixed:
  "list_ex is_list els \<Longrightarrow> \<not> list_all is_list els \<Longrightarrow>
   init (PyList els) PyNone h = (Inl (ValueError '':list: of :dims: must only contains :lists:''), h)"
  by (simp add: init_def construct_dims_def raise_def)

lemma init_int:
  "0 \<le> n \<Longrightarrow> init (PyInt n) PyNone h
     = (Inr \<lparr>IS_AOA = False, values = length h\<rparr>, h @ [zeros [nat n, 1]])"
  using np_zeros_ok [of "[PyInt n, PyInt 1]" h]
  by (simp add: init_def construct_dims_def valid_extents_def extents_def bnd_Inr ret_def)

lemma valid_extents_not_list: "valid_extents ds \<Longrightarrow> \<not> list_ex is_list ds"
proof -
  have "is_int d \<Longrightarrow> \<not> is_list d" for d by (cases d) simp_all
  then show "valid_extents ds \<Longrightarrow> \<not> list_ex is_list ds"
    by (auto simp: valid_extents_def list_all_iff list_ex_iff)
qed

lemma init_flat:
  assumes "valid_extents ds"
  shows "init (PyList ds) PyNone h
     = (Inr \<lparr>IS_AOA = False, values = length h\<rparr>, h @ [zeros (dense_shape ds)])"
  using valid_extents_not_list [OF assms] np_zeros_dense [OF assms, of h]
  by (simp add: init_def construct_dims_def bnd_Inr ret_def)

lemma set_slot_ok:
  "a < length h \<Longrightarrow> h ! a = ObjArr sl \<Longrightarrow> i < length sl \<Longrightarrow>
   set_slot a i r h = (Inr (), h[a := ObjArr (sl[i := r])])"
  by (simp add: set_slot_def bnd_def load_def store_def)

lemma get_slot_ok:
  "a < length h \<Longrightarrow> h ! a = ObjArr sl \<Longrightarrow> i < length sl \<Longrightarrow>
   get_slot a i h = (Inr (sl ! i), h)"
  by (simp add: get_slot_def bnd_def load_def ret_def)

lemma load_ok: "a < length h \<Longrightarrow> load a h = (Inr (h ! a), h)"
  by (simp add: load_def)

lemma construct_dims_step_ok:
  assumes "i < length els" "valid_inner (els ! i)" "r < length h" "h ! r = ObjArr sl"
    "length sl = length els"
  shows "construct_dims_step els r i h
     = (Inr (), (h @ [zeros (dense_shape (inner_of (els ! i)))])[r := ObjArr (sl[i := Some (length h)])])"
proof -
  from assms(2) obtain ds where ds: "els ! i = PyList ds" "valid_extents ds"
    by (cases "els ! i") simp_all
  have "set_slot r i (Some (length h)) (h @ [zeros (dense_shape ds)])
      = (Inr (), (h @ [zeros (dense_shape ds)])[r := ObjArr (sl[i := Some (length h)])])"
    using assms by (intro set_slot_ok) (simp_all add: nth_append)
  with np_zeros_dense [OF ds(2), of h] ds(1) show ?thesis
    by (simp add: construct_dims_step_def bnd_Inr)
qed

lemma init_ragged:
  assumes ne: "els \<noteq> []" and ok: "list_all valid_inner els"
  shows "\<exists>h' sl. init (PyList els) PyNone h = (Inr \<lparr>IS_AOA = True, values = length h\<rparr>, h')
      \<and> extends h h' \<and> h' ! length h = ObjArr sl \<and> length sl = length els
      \<and> (\<forall>i<length els. \<exists>a. sl ! i = Some a \<and> length h < a \<and> a < length h'
            \<and> h' ! a = zeros (dense_shape (inner_of (els ! i))))"
proof -
  have lists: "list_all is_list els"
  proof -
    have "valid_inner e \<Longrightarrow> is_list e" for e by (cases e) simp_all
    with ok show ?thesis by (auto simp: list_all_iff)
  qed
  with ne have ex: "list_ex is_list els" by (cases els) simp_all
  let ?n = "length els"
  let ?h1 = "h @ [ObjArr (replicate ?n None)]"
  let ?Q = "\<lambda>i arr. arr = zeros (dense_shape (inner_of (els ! i)))"
  have "\<exists>h' sl'. for_range ?n (construct_dims_step els (length h)) ?h1 = (Inr (), h')
           \<and> length ?h1 \<le> length h'
           \<and> (\<forall>a<length ?h1. a \<noteq> length h \<longrightarrow> h' ! a = ?h1 ! a)
           \<and> h' ! length h = ObjArr sl' \<and> length sl' = ?n
           \<and> (\<forall>k<?n. \<exists>a. sl' ! k = Some a \<and> length ?h1 \<le> a \<and> a < length h' \<and> ?Q k (h' ! a))"
  proof (rule fill_loop [where ?sl1.0 = "replicate ?n None"])
    show "length h < length ?h1" by simp
    show "?h1 ! length h = ObjArr (replicate ?n None)" by simp
    show "length (replicate ?n None :: nat option list) = ?n" by simp
  next
    fix i h2 sl
    assume i: "i < ?n" and len: "length ?h1 \<le> length h2" and sl: "h2 ! length h = ObjArr sl"
      "length sl = ?n"
    from ok i have "valid_inner (els ! i)" by (simp add: list_all_length)
    from construct_dims_step_ok [OF i this _ sl] len
    have "construct_dims_step els (length h) i h2
      = (Inr (), (h2 @ [zeros (dense_shape (inner_of (els ! i)))])[length h := ObjArr (sl[i := Some (length h2)])])"
      by simp
    then show "\<exists>ys a. construct_dims_step els (length h) i h2
        = (Inr (), (h2 @ ys)[length h := ObjArr (sl[i := Some a])])
        \<and> length h2 \<le> a \<and> a < length h2 + length ys \<and> ?Q i ((h2 @ ys) ! a)"
      by (intro exI [of _ "[zeros (dense_shape (inner_of (els ! i)))]"] exI [of _ "length h2"]) simp
  qed
  then obtain h' sl' where loop: "for_range ?n (construct_dims_step els (length h)) ?h1 = (Inr (), h')"
    and len: "length ?h1 \<le> length h'"
    and old: "\<forall>a<length ?h1. a \<noteq> length h \<longrightarrow> h' ! a = ?h1 ! a"
    and sl: "h' ! length h = ObjArr sl'" "length sl' = ?n"
    and els: "\<forall>k<?n. \<exists>a. sl' ! k = Some a \<and> length ?h1 \<le> a \<and> a < length h' \<and> ?Q k (h' ! a)"
    by blast
  have run: "init (PyList els) PyNone h = (Inr \<lparr>IS_AOA = True, values = length h\<rparr>, h')"
    using ex lists loop
    by (simp add: init_def construct_dims_def bnd_def alloc_def ret_def)
  have ext: "extends h h'"
    unfolding extends_def using len old by (auto simp: list_eq_iff_nth_eq nth_append)
  from els have "\<forall>i<?n. \<exists>a. sl' ! i = Some a \<and> length h < a \<and> a < length h'
            \<and> h' ! a = zeros (dense_shape (inner_of (els ! i)))"
    by fastforce
  with run ext sl show ?thesis by blast
qed

text \<open>
  C6. \<^verbatim>\<open>Dirichlet(dims, values)\<close> with both arguments given raises the ValueError of
  line 32 and leaves every array as it was, so nothing is constructed. With neither
  argument it gives a dense object over one new array of shape (1, 1) that holds 0.
  With \<^verbatim>\<open>dims\<close> that is neither an integer nor a list it raises the ValueError of
  line 102, and with a list of \<^verbatim>\<open>dims\<close> in which some elements are lists and some are
  not it raises the ValueError of line 84; in both cases no array is made.
\<close>

theorem construction_errors:
  "(vals \<noteq> PyNone \<and> dims \<noteq> PyNone \<longrightarrow>
      init dims vals h
        = (Inl (ValueError ''please provide _either_ :dims: or :values:, not both''), h))
   \<and> init PyNone PyNone h
        = (Inr \<lparr>IS_AOA = False, values = length h\<rparr>, h @ [NumArr [1, 1] [Fin 0]])
   \<and> (\<not> is_list other \<and> \<not> is_int other \<and> other \<noteq> PyNone \<longrightarrow>
      init other PyNone h = (Inl (ValueError '':dims: must be either :list: or :int:''), h))
   \<and> (list_ex is_list els \<and> \<not> list_all is_list els \<longrightarrow>
      init (PyList els) PyNone h
        = (Inl (ValueError '':list: of :dims: must only contains :lists:''), h))"
  using init_both [of vals dims h] init_neither [of h] init_bad_dims [of other h]
    init_mixed [of els h]
  by blast

theorem construction_errors_witness:
  "init (PyInt 3) (PyArray 0) [NumArr [2] [Fin 1, Fin 2]]
     = (Inl (ValueError ''please provide _either_ :dims: or :values:, not both''),
        [NumArr [2] [Fin 1, Fin 2]])
   \<and> init PyNone PyNone [] = (Inr \<lparr>IS_AOA = False, values = 0\<rparr>, [NumArr [1, 1] [Fin 0]])
   \<and> init (PyTuple [PyInt 3, PyInt 4]) PyNone []
     = (Inl (ValueError '':dims: must be either :list: or :int:''), [])
   \<and> init (PyList [PyList [PyInt 2], PyInt 3]) PyNone []
     = (Inl (ValueError '':list: of :dims: must only contains :lists:''), [])"
  using construction_errors [of "PyArray 0" "PyInt 3" "[NumArr [2] [Fin 1, Fin 2]]"
      "PyTuple [PyInt 3, PyInt 4]" "[PyList [PyInt 2], PyInt 3]"]
    construction_errors [of PyNone PyNone "[]" "PyTuple [PyInt 3, PyInt 4]"
      "[PyList [PyInt 2], PyInt 3]"]
  by simp

text \<open>
  C5. Construction from \<^verbatim>\<open>dims\<close> alone allocates zero arrays of these shapes. An
  integer \<open>n\<close> (not negative) gives a dense object over a new array of shape (n, 1). A
  flat list of more than one extent gives a dense object over a new array of that shape,
  and the list \<open>[d]\<close> gives shape (d, 1). A list of lists (not empty) gives an
  array-of-arrays object over a new object array with one slot for each inner list,
  and slot \<open>i\<close> refers to a new zero array whose shape is resolved from the inner list
  \<open>i\<close> by the rule of the flat list, \<open>dense_shape\<close>. No array that existed before is
  changed.
\<close>

theorem construction_from_dims:
  "(0 \<le> n \<longrightarrow>
      init (PyInt n) PyNone h
        = (Inr \<lparr>IS_AOA = False, values = length h\<rparr>, h @ [zeros [nat n, 1]]))
   \<and> (valid_extents ds \<and> 1 < length ds \<longrightarrow>
      init (PyList ds) PyNone h
        = (Inr \<lparr>IS_AOA = False, values = length h\<rparr>, h @ [zeros (extents ds)]))
   \<and> (0 \<le> d \<longrightarrow>
      init (PyList [PyInt d]) PyNone h
        = (Inr \<lparr>IS_AOA = False, values = length h\<rparr>, h @ [zeros [nat d, 1]]))
   \<and> (valid_extents ds \<longrightarrow>
      init (PyList ds) PyNone h
        = (Inr \<lparr>IS_AOA = False, values = length h\<rparr>, h @ [zeros (dense_shape ds)]))
   \<and> (els \<noteq> [] \<and> list_all valid_inner els \<longrightarrow>
      (\<exists>h' sl. init (PyList els) PyNone h = (Inr \<lparr>IS_AOA = True, values = length h\<rparr>, h')
         \<and> extends h h' \<and> h' ! length h = ObjArr sl \<and> length sl = length els
         \<and> (\<forall>i<length els. \<exists>a. sl ! i = Some a \<and> length h < a \<and> a < length h'
               \<and> h' ! a = zeros (dense_shape (inner_of (els ! i))))))"
proof -
  have flat: "valid_extents ds \<and> 1 < length ds \<longrightarrow>
      init (PyList ds) PyNone h
        = (Inr \<lparr>IS_AOA = False, values = length h\<rparr>, h @ [zeros (extents ds)])"
    using init_flat [of ds h] by (simp add: dense_shape_def)
  have one: "0 \<le> d \<longrightarrow>
      init (PyList [PyInt d]) PyNone h
        = (Inr \<lparr>IS_AOA = False, values = length h\<rparr>, h @ [zeros [nat d, 1]])"
    using init_flat [of "[PyInt d]" h] by (simp add: dense_shape_def valid_extents_def)
  show ?thesis
    using init_int [of n h] flat one init_flat [of ds h] init_ragged [of els h] by blast
qed

theorem construction_from_dims_witness:
  "init (PyInt 3) PyNone [] = (Inr \<lparr>IS_AOA = False, values = 0\<rparr>, [zeros [3, 1]])
   \<and> init (PyList [PyInt 3, PyInt 4]) PyNone [] = (Inr \<lparr>IS_AOA = False, values = 0\<rparr>, [zeros [3, 4]])
   \<and> init (PyList [PyInt 5]) PyNone [] = (Inr \<lparr>IS_AOA = False, values = 0\<rparr>, [zeros [5, 1]])
   \<and> (\<exists>h' sl. init (PyList [PyList [PyInt 2], PyList [PyInt 3, PyInt 3]]) PyNone []
          = (Inr \<lparr>IS_AOA = True, values = 0\<rparr>, h')
        \<and> h' ! 0 = ObjArr sl \<and> length sl = 2
        \<and> (\<exists>a. sl ! 0 = Some a \<and> h' ! a = zeros [2, 1])
        \<and> (\<exists>a. sl ! 1 = Some a \<and> h' ! a = zeros [3, 3]))"
proof -
  note T = construction_from_dims [of 3 "[]" "[PyInt 3, PyInt 4]" 5
      "[PyList [PyInt 2], PyList [PyInt 3, PyInt 3]]"]
  have a: "init (PyInt 3) PyNone [] = (Inr \<lparr>IS_AOA = False, values = 0\<rparr>, [zeros [3, 1]])"
    using T [THEN conjunct1] by simp
  have b: "init (PyList [PyInt 3, PyInt 4]) PyNone []
      = (Inr \<lparr>IS_AOA = False, values = 0\<rparr>, [zeros [3, 4]])"
    using T [THEN conjunct2, THEN conjunct1] by (simp add: valid_extents_def extents_def)
  have c: "init (PyList [PyInt 5]) PyNone [] = (Inr \<lparr>IS_AOA = False, values = 0\<rparr>, [zeros [5, 1]])"
    using T [THEN conjunct2, THEN conjunct2, THEN conjunct1] by simp
  have "list_all valid_inner [PyList [PyInt 2], PyList [PyInt 3, PyInt 3]]"
    by (simp add: valid_extents_def)
  with T [THEN conjunct2, THEN conjunct2, THEN conjunct2, THEN conjunct2]
  obtain h' sl where run: "init (PyList [PyList [PyInt 2], PyList [PyInt 3, PyInt 3]]) PyNone []
          = (Inr \<lparr>IS_AOA = True, values = 0\<rparr>, h')"
    and sl: "h' ! 0 = ObjArr sl" "length sl = 2"
    and el: "\<forall>i<2. \<exists>a. sl ! i = Some a \<and> 0 < a \<and> a < length h'
               \<and> h' ! a = zeros (dense_shape (inner_of ([PyList [PyInt 2], PyList [PyInt 3, PyInt 3]] ! i)))"
    by auto
  from el [rule_format, of 0] have e0: "\<exists>a. sl ! 0 = Some a \<and> h' ! a = zeros [2, 1]"
    by (auto simp: dense_shape_def)
  from el [rule_format, of 1] have e1: "\<exists>a. sl ! 1 = Some a \<and> h' ! a = zeros [3, 3]"
    by (auto simp: dense_shape_def extents_def)
  from a b c run sl e0 e1 show ?thesis by blast
qed

subsection \<open>remove_zeros\<close>

lemma num_at_Some:
  "num_at h s = Some t \<longleftrightarrow> (\<exists>a. s = Some a \<and> a < length h \<and> h ! a = NumArr (fst t) (snd t))"
  by (cases s; cases t) (auto simp: num_at_def split: ndarray.splits)

lemma raw_tensors_obj:
  assumes "raw_tensors h v = Some ts" "h ! v = ObjArr sl"
  shows "v < length h \<and> length ts = length sl
     \<and> (\<forall>i<length sl. \<exists>a. sl ! i = Some a \<and> a < length h \<and> a \<noteq> v
            \<and> h ! a = NumArr (fst (ts ! i)) (snd (ts ! i)))"
proof -
  from assms have v: "v < length h" by (auto simp: raw_tensors_def split: if_splits)
  from assms v have all: "list_all (\<lambda>s. num_at h s \<noteq> None) sl"
    and ts: "ts = map (\<lambda>s. the (num_at h s)) sl"
    by (auto simp: raw_tensors_def split: if_splits)
  have "\<exists>a. sl ! i = Some a \<and> a < length h \<and> a \<noteq> v \<and> h ! a = NumArr (fst (ts ! i)) (snd (ts ! i))"
    if "i < length sl" for i
  proof -
    from all that obtain t where t: "num_at h (sl ! i) = Some t" by (auto simp: list_all_length)
    then obtain a where "sl ! i = Some a" "a < length h" "h ! a = NumArr (fst t) (snd t)"
      by (auto simp: num_at_Some)
    moreover from this assms(2) have "a \<noteq> v" by auto
    moreover from t ts that have "ts ! i = t" by simp
    ultimately show ?thesis by simp
  qed
  with v ts show ?thesis by simp
qed

lemma raw_tensors_num:
  "raw_tensors h v = Some ts \<Longrightarrow> h ! v = NumArr sh dt \<Longrightarrow> v < length h \<and> ts = [(sh, dt)]"
  by (auto simp: raw_tensors_def split: if_splits)

lemma raw_tensors_filled:
  assumes "r < length h" "h ! r = ObjArr sl"
    and "\<forall>k<length sl. \<exists>a. sl ! k = Some a \<and> a < length h \<and> h ! a = NumArr (fst (F k)) (snd (F k))"
  shows "raw_tensors h r = Some (map F [0..<length sl])"
proof -
  have 1: "num_at h (sl ! k) = Some (F k)" if "k < length sl" for k
  proof -
    from assms(3) that obtain a where "sl ! k = Some a" "a < length h"
      "h ! a = NumArr (fst (F k)) (snd (F k))" by blast
    then show ?thesis by (simp add: num_at_def)
  qed
  have 2: "list_all (\<lambda>s. num_at h s \<noteq> None) sl"
    unfolding list_all_length using 1 by simp
  have 3: "map (\<lambda>s. the (num_at h s)) sl = map F [0..<length sl]"
  proof (rule nth_equalityI)
    show "length (map (\<lambda>s. the (num_at h s)) sl) = length (map F [0..<length sl])" by simp
  next
    fix i assume "i < length (map (\<lambda>s. the (num_at h s)) sl)"
    then have "i < length sl" by simp
    with 1 [OF this] show "map (\<lambda>s. the (num_at h s)) sl ! i = map F [0..<length sl] ! i"
      by simp
  qed
  show ?thesis using assms(1,2) 2 3 by (simp add: raw_tensors_def)
qed

lemma map_upt_nth_list: "length ts = n \<Longrightarrow> map (\<lambda>k. g (ts ! k)) [0..<n] = map g ts"
  by (auto simp: list_eq_iff_nth_eq)

lemma remove_zeros_dense:
  assumes "v < length h" "h ! v = NumArr sh dt"
  shows "remove_zeros \<lparr>IS_AOA = f, values = v\<rparr> h = (Inr (), h[v := NumArr sh (add_floor dt)])"
  using assms by (simp add: remove_zeros_def bnd_def load_def store_def)

lemma remove_zeros_step_ok:
  assumes "r < length h" "h ! r = ObjArr sl" "i < length sl" "sl ! i = Some a" "a < length h"
    "h ! a = NumArr sh dt"
  shows "remove_zeros_step r i h
         = (Inr (), (h @ [NumArr sh (add_floor dt)])[r := ObjArr (sl[i := Some (length h)])])"
proof -
  have "set_slot r i (Some (length h)) (h @ [NumArr sh (add_floor dt)])
      = (Inr (), (h @ [NumArr sh (add_floor dt)])[r := ObjArr (sl[i := Some (length h)])])"
    using assms by (intro set_slot_ok) (simp_all add: nth_append)
  moreover have "get_slot r i h = (Inr (Some a), h)"
    using get_slot_ok [OF assms(1,2,3)] assms(4) by simp
  moreover have "load a h = (Inr (NumArr sh dt), h)"
    using load_ok [OF assms(5)] assms(6) by simp
  ultimately show ?thesis by (simp add: remove_zeros_step_def bnd_def alloc_def)
qed

lemma remove_zeros_ragged:
  assumes ts: "raw_tensors h v = Some ts" and obj: "h ! v = ObjArr sl"
  shows "\<exists>h'. remove_zeros \<lparr>IS_AOA = f, values = v\<rparr> h = (Inr (), h')
      \<and> length h \<le> length h' \<and> (\<forall>a<length h. a \<noteq> v \<longrightarrow> h' ! a = h ! a)
      \<and> is_obj (h' ! v)
      \<and> raw_tensors h' v = Some (map floor_tensor ts)"
proof -
  from raw_tensors_obj [OF ts obj] have v: "v < length h" and len: "length ts = length sl"
    and src: "\<forall>i<length sl. \<exists>a. sl ! i = Some a \<and> a < length h \<and> a \<noteq> v
            \<and> h ! a = NumArr (fst (ts ! i)) (snd (ts ! i))" by auto
  let ?n = "length sl"
  let ?body = "remove_zeros_step v"
  let ?F = "\<lambda>k. floor_tensor (ts ! k)"
  let ?Q = "\<lambda>k arr. arr = NumArr (fst (?F k)) (snd (?F k))"
  have "\<exists>h' sl'. for_range ?n ?body h = (Inr (), h') \<and> length h \<le> length h'
           \<and> (\<forall>a<length h. a \<noteq> v \<longrightarrow> h' ! a = h ! a)
           \<and> h' ! v = ObjArr sl' \<and> length sl' = ?n
           \<and> (\<forall>k<?n. \<exists>a. sl' ! k = Some a \<and> length h \<le> a \<and> a < length h' \<and> ?Q k (h' ! a))"
  proof (rule fill_loop [OF v obj refl])
    fix i h2 sl2
    assume i: "i < ?n" and l2: "length h \<le> length h2"
      and old: "\<forall>a<length h. a \<noteq> v \<longrightarrow> h2 ! a = h ! a"
      and sl2: "h2 ! v = ObjArr sl2" "length sl2 = ?n"
      and rest: "\<forall>k. i \<le> k \<longrightarrow> k < ?n \<longrightarrow> sl2 ! k = sl ! k"
    from src i obtain a where a: "sl ! i = Some a" "a < length h" "a \<noteq> v"
      "h ! a = NumArr (fst (ts ! i)) (snd (ts ! i))" by blast
    from rest i a have s2: "sl2 ! i = Some a" by simp
    from old a have ha: "h2 ! a = NumArr (fst (ts ! i)) (snd (ts ! i))" by simp
    have "?body i h2 = (Inr (), (h2 @ [NumArr (fst (ts ! i)) (add_floor (snd (ts ! i)))])
             [v := ObjArr (sl2[i := Some (length h2)])])"
      using v l2 sl2 i s2 a(2) ha by (intro remove_zeros_step_ok) simp_all
    then show "\<exists>ys a. ?body i h2 = (Inr (), (h2 @ ys)[v := ObjArr (sl2[i := Some a])])
        \<and> length h2 \<le> a \<and> a < length h2 + length ys \<and> ?Q i ((h2 @ ys) ! a)"
      by (intro exI [of _ "[NumArr (fst (ts ! i)) (add_floor (snd (ts ! i)))]"]
          exI [of _ "length h2"]) (simp add: floor_tensor_def add_floor_def)
  qed
  then obtain h' sl' where loop: "for_range ?n ?body h = (Inr (), h')"
    and l: "length h \<le> length h'" and old: "\<forall>a<length h. a \<noteq> v \<longrightarrow> h' ! a = h ! a"
    and sl': "h' ! v = ObjArr sl'" "length sl' = ?n"
    and el: "\<forall>k<?n. \<exists>a. sl' ! k = Some a \<and> length h \<le> a \<and> a < length h' \<and> ?Q k (h' ! a)"
    by blast
  have run: "remove_zeros \<lparr>IS_AOA = f, values = v\<rparr> h = (Inr (), h')"
    using v obj loop by (simp add: remove_zeros_def bnd_def load_def)
  have "raw_tensors h' v = Some (map ?F [0..<length sl'])"
    using v l sl' el by (intro raw_tensors_filled) auto
  then have "raw_tensors h' v = Some (map floor_tensor ts)"
    using sl'(2) len by (simp add: map_upt_nth_list)
  with run l old sl' show ?thesis by simp
qed

lemma floor_tensor_entries:
  "fst (floor_tensor t) = fst t \<and> length (snd (floor_tensor t)) = length (snd t)
   \<and> (\<forall>k<length (snd t).
         (snd t ! k = Fin 0 \<longrightarrow> snd (floor_tensor t) ! k = Fin (exp (- 16)))
       \<and> (\<forall>x. snd t ! k = Fin x \<longrightarrow> snd (floor_tensor t) ! k = Fin (x + exp (- 16))))"
  by (simp add: floor_tensor_def exp_m16_def)

text \<open>
  C4. \<^verbatim>\<open>remove_zeros\<close> on a store whose values are numeric arrays (one array, or an
  object array whose slots all refer to numeric arrays) ends without an exception.
  Afterwards the same address \<open>values self\<close> holds the same kind of container with the
  same shapes, and every entry is the old entry plus \<^verbatim>\<open>np.exp(-16)\<close>: an entry that was
  0 is \<open>exp (- 16)\<close>, a finite entry \<open>x\<close> is \<open>x + exp (- 16)\<close>. No other array that
  existed before is changed.
\<close>

theorem remove_zeros_adds_floor:
  assumes "raw_tensors h (values self) = Some ts"
  shows "\<exists>h'. remove_zeros self h = (Inr (), h')
      \<and> raw_tensors h' (values self) = Some (map floor_tensor ts)
      \<and> is_obj (h' ! values self) = is_obj (h ! values self)
      \<and> length h \<le> length h'
      \<and> (\<forall>a<length h. a \<noteq> values self \<longrightarrow> h' ! a = h ! a)
      \<and> (\<forall>t\<in>set ts. fst (floor_tensor t) = fst t
            \<and> length (snd (floor_tensor t)) = length (snd t)
            \<and> (\<forall>k<length (snd t).
                  (snd t ! k = Fin 0 \<longrightarrow> snd (floor_tensor t) ! k = Fin (exp (- 16)))
                \<and> (\<forall>x. snd t ! k = Fin x
                       \<longrightarrow> snd (floor_tensor t) ! k = Fin (x + exp (- 16)))))"
proof -
  obtain f v where self: "self = \<lparr>IS_AOA = f, values = v\<rparr>" by (cases self) auto
  from assms have ts: "raw_tensors h v = Some ts" by (simp add: self)
  then have v: "v < length h" by (auto simp: raw_tensors_def split: if_splits)
  have main: "\<exists>h'. remove_zeros self h = (Inr (), h')
      \<and> raw_tensors h' v = Some (map floor_tensor ts)
      \<and> is_obj (h' ! v) = is_obj (h ! v)
      \<and> length h \<le> length h' \<and> (\<forall>a<length h. a \<noteq> v \<longrightarrow> h' ! a = h ! a)"
  proof (cases "h ! v")
    case (NumArr sh dt)
    from raw_tensors_num [OF ts NumArr] have t1: "ts = [(sh, dt)]" by simp
    let ?h' = "h[v := NumArr sh (add_floor dt)]"
    have "raw_tensors ?h' v = Some (map floor_tensor ts)"
      using v t1 by (simp add: raw_tensors_def floor_tensor_def add_floor_def)
    moreover have "is_obj (?h' ! v) = is_obj (h ! v)" using v NumArr by simp
    ultimately show ?thesis
      using remove_zeros_dense [OF v NumArr, of f] by (simp add: self)
  next
    case (ObjArr sl)
    from remove_zeros_ragged [OF ts ObjArr, of f] ObjArr show ?thesis by (auto simp: self)
  qed
  from floor_tensor_entries have "\<forall>t\<in>set ts. fst (floor_tensor t) = fst t
            \<and> length (snd (floor_tensor t)) = length (snd t)
            \<and> (\<forall>k<length (snd t).
                  (snd t ! k = Fin 0 \<longrightarrow> snd (floor_tensor t) ! k = Fin (exp (- 16)))
                \<and> (\<forall>x. snd t ! k = Fin x
                       \<longrightarrow> snd (floor_tensor t) ! k = Fin (x + exp (- 16))))"
    by blast
  with main show ?thesis by (simp add: self)
qed

theorem remove_zeros_adds_floor_witness:
  "raw_tensors [NumArr [2, 1] [Fin 0, Fin 2], NumArr [1, 2] [Fin 0, Fin (- 1)], ObjArr [Some 0, Some 1]] 2
     = Some [([2, 1], [Fin 0, Fin 2]), ([1, 2], [Fin 0, Fin (- 1)])]
   \<and> (\<exists>h'. remove_zeros \<lparr>IS_AOA = True, values = 2\<rparr>
              [NumArr [2, 1] [Fin 0, Fin 2], NumArr [1, 2] [Fin 0, Fin (- 1)], ObjArr [Some 0, Some 1]]
            = (Inr (), h')
          \<and> raw_tensors h' 2
            = Some [([2, 1], [Fin (exp (- 16)), Fin (2 + exp (- 16))]),
                    ([1, 2], [Fin (exp (- 16)), Fin (- 1 + exp (- 16))])]
          \<and> h' ! 0 = NumArr [2, 1] [Fin 0, Fin 2])"
proof -
  let ?h = "[NumArr [2, 1] [Fin 0, Fin 2], NumArr [1, 2] [Fin 0, Fin (- 1)], ObjArr [Some 0, Some 1]]"
  have hyp: "raw_tensors ?h (values \<lparr>IS_AOA = True, values = 2\<rparr>)
      = Some [([2, 1], [Fin 0, Fin 2]), ([1, 2], [Fin 0, Fin (- 1)])]"
    by (simp add: raw_tensors_def num_at_def)
  from remove_zeros_adds_floor [OF hyp] obtain h' where
    "remove_zeros \<lparr>IS_AOA = True, values = 2\<rparr> ?h = (Inr (), h')"
    "raw_tensors h' 2 = Some (map floor_tensor [([2, 1], [Fin 0, Fin 2]), ([1, 2], [Fin 0, Fin (- 1)])])"
    "\<forall>a<length ?h. a \<noteq> 2 \<longrightarrow> h' ! a = ?h ! a"
    by auto
  moreover from this(3) have "h' ! 0 = ?h ! 0" by simp
  ultimately show ?thesis using hyp by (simp add: floor_tensor_def exp_m16_def)
qed

subsection \<open>Arithmetic operators\<close>

lemma extendsI:
  assumes "length h \<le> length h'" "\<forall>a<length h. h' ! a = h ! a"
  shows "extends h h'"
  unfolding extends_def using assms by (simp add: list_eq_iff_nth_eq)

lemma extendsD: "extends h h' \<Longrightarrow> length h \<le> length h' \<and> (\<forall>a<length h. h' ! a = h ! a)"
proof -
  assume e: "extends h h'"
  then have "length (take (length h) h') = length h" by (simp add: extends_def)
  then have l: "length h \<le> length h'" by simp
  have "h' ! a = h ! a" if "a < length h" for a
  proof -
    from that have "take (length h) h' ! a = h' ! a" by simp
    with e show ?thesis by (simp add: extends_def)
  qed
  with l show ?thesis by simp
qed

lemma extends_refl [simp]: "extends h h"
  by (simp add: extends_def)

lemma extends_append [simp]: "extends h (h @ ys)"
  by (simp add: extends_def)

lemma extends_trans: "extends h1 h2 \<Longrightarrow> extends h2 h3 \<Longrightarrow> extends h1 h3"
proof -
  assume a: "extends h1 h2" "extends h2 h3"
  from extendsD [OF a(1)] extendsD [OF a(2)] show ?thesis
    by (intro extendsI) auto
qed

lemma new_obj_loop:
  assumes step: "\<And>i h2 sl2. i < n \<Longrightarrow> length h < length h2
        \<Longrightarrow> (\<forall>b<length h. h2 ! b = h ! b)
        \<Longrightarrow> h2 ! length h = ObjArr sl2 \<Longrightarrow> length sl2 = n
        \<Longrightarrow> \<exists>ys. body i h2 = (Inr (), (h2 @ ys @ [NumArr (fst (F i)) (snd (F i))])
                      [length h := ObjArr (sl2[i := Some (length h2 + length ys)])])"
  shows "\<exists>h'. for_range n body (h @ [ObjArr (replicate n None)]) = (Inr (), h')
      \<and> extends h h' \<and> length h < length h' \<and> is_obj (h' ! length h)
      \<and> raw_tensors h' (length h) = Some (map F [0..<n])"
proof -
  let ?h1 = "h @ [ObjArr (replicate n None)]"
  let ?r = "length h"
  let ?Q = "\<lambda>i arr. arr = NumArr (fst (F i)) (snd (F i))"
  have "\<exists>h' sl'. for_range n body ?h1 = (Inr (), h') \<and> length ?h1 \<le> length h'
           \<and> (\<forall>a<length ?h1. a \<noteq> ?r \<longrightarrow> h' ! a = ?h1 ! a)
           \<and> h' ! ?r = ObjArr sl' \<and> length sl' = n
           \<and> (\<forall>k<n. \<exists>a. sl' ! k = Some a \<and> length ?h1 \<le> a \<and> a < length h' \<and> ?Q k (h' ! a))"
  proof (rule fill_loop [where ?sl1.0 = "replicate n None"])
    show "?r < length ?h1" by simp
    show "?h1 ! ?r = ObjArr (replicate n None)" by simp
    show "length (replicate n None :: nat option list) = n" by simp
  next
    fix i h2 sl2
    assume i: "i < n" and l2: "length ?h1 \<le> length h2"
      and old: "\<forall>a<length ?h1. a \<noteq> ?r \<longrightarrow> h2 ! a = ?h1 ! a"
      and sl2: "h2 ! ?r = ObjArr sl2" "length sl2 = n"
    from l2 have l: "length h < length h2" by simp
    have o: "\<forall>b<length h. h2 ! b = h ! b"
    proof (intro allI impI)
      fix b assume b: "b < length h"
      with old have "h2 ! b = ?h1 ! b" by simp
      with b show "h2 ! b = h ! b" by (simp add: nth_append)
    qed
    from step [OF i l o sl2] obtain ys where
      b: "body i h2 = (Inr (), (h2 @ ys @ [NumArr (fst (F i)) (snd (F i))])
                      [?r := ObjArr (sl2[i := Some (length h2 + length ys)])])" by blast
    show "\<exists>ys a. body i h2 = (Inr (), (h2 @ ys)[?r := ObjArr (sl2[i := Some a])])
        \<and> length h2 \<le> a \<and> a < length h2 + length ys \<and> ?Q i ((h2 @ ys) ! a)"
      using b
      by (intro exI [of _ "ys @ [NumArr (fst (F i)) (snd (F i))]"]
          exI [of _ "length h2 + length ys"]) (simp add: nth_append)
  qed
  then obtain h' sl' where loop: "for_range n body ?h1 = (Inr (), h')"
    and l: "length ?h1 \<le> length h'"
    and old: "\<forall>a<length ?h1. a \<noteq> ?r \<longrightarrow> h' ! a = ?h1 ! a"
    and sl': "h' ! ?r = ObjArr sl'" "length sl' = n"
    and el: "\<forall>k<n. \<exists>a. sl' ! k = Some a \<and> length ?h1 \<le> a \<and> a < length h' \<and> ?Q k (h' ! a)"
    by blast
  have ext: "extends h h'"
  proof (rule extendsI)
    show "length h \<le> length h'" using l by simp
    show "\<forall>a<length h. h' ! a = h ! a"
    proof (intro allI impI)
      fix a assume a: "a < length h"
      with old have "h' ! a = ?h1 ! a" by simp
      with a show "h' ! a = h ! a" by (simp add: nth_append)
    qed
  qed
  have el': "\<forall>k<length sl'. \<exists>a. sl' ! k = Some a \<and> a < length h'
      \<and> h' ! a = NumArr (fst (F k)) (snd (F k))"
    using el sl'(2) by blast
  have "raw_tensors h' ?r = Some (map F [0..<length sl'])"
    using l sl'(1) el' by (intro raw_tensors_filled) simp_all
  with loop ext l sl' show ?thesis by simp
qed

lemma construct_values_num:
  assumes "a < length h" "h ! a = NumArr sh dt" "length sh \<noteq> 1"
  shows "construct_values (PyArray a) h
     = (Inr \<lparr>IS_AOA = False, values = length h\<rparr>, h @ [NumArr sh dt])"
  using assms
  by (simp add: construct_values_def bnd_def load_def ret_def astype_float64_def alloc_def)

lemma construct_values_step_ok:
  assumes "v < length h" "h ! v = ObjArr sl" "i < length sl" "sl ! i = Some a" "a < length h"
    "h ! a = NumArr sh dt" "length sh \<noteq> 1" "r < length h" "h ! r = ObjArr sl2" "i < length sl2"
  shows "construct_values_step v r i h
     = (Inr (), (h @ [NumArr sh dt])[r := ObjArr (sl2[i := Some (length h)])])"
proof -
  have g: "get_slot v i h = (Inr (Some a), h)"
    using get_slot_ok [OF assms(1,2,3)] assms(4) by simp
  have l: "load a h = (Inr (NumArr sh dt), h)"
    using load_ok [OF assms(5)] assms(6) by simp
  have c: "astype_float64 a h = (Inr (length h), h @ [NumArr sh dt])"
    using l by (simp add: astype_float64_def bnd_def alloc_def)
  have s: "set_slot r i (Some (length h)) (h @ [NumArr sh dt])
      = (Inr (), (h @ [NumArr sh dt])[r := ObjArr (sl2[i := Some (length h)])])"
    using assms(8,9,10) by (intro set_slot_ok) (simp_all add: nth_append)
  show ?thesis
    using assms(7) by (simp add: construct_values_step_def bnd_def g l c s ret_def)
qed

lemma construct_values_obj:
  assumes ts: "raw_tensors h v = Some ts" and obj: "h ! v = ObjArr sl"
    and rank: "\<forall>t\<in>set ts. length (fst t) \<noteq> 1"
  shows "\<exists>h'. construct_values (PyArray v) h = (Inr \<lparr>IS_AOA = True, values = length h\<rparr>, h')
      \<and> extends h h' \<and> length h < length h' \<and> is_obj (h' ! length h)
      \<and> raw_tensors h' (length h) = Some ts"
proof -
  from raw_tensors_obj [OF ts obj] have v: "v < length h" and len: "length ts = length sl"
    and src: "\<forall>i<length sl. \<exists>a. sl ! i = Some a \<and> a < length h \<and> a \<noteq> v
            \<and> h ! a = NumArr (fst (ts ! i)) (snd (ts ! i))" by auto
  let ?n = "length sl"
  have "\<exists>h'. for_range ?n (construct_values_step v (length h)) (h @ [ObjArr (replicate ?n None)])
        = (Inr (), h')
      \<and> extends h h' \<and> length h < length h' \<and> is_obj (h' ! length h)
      \<and> raw_tensors h' (length h) = Some (map (\<lambda>k. ts ! k) [0..<?n])"
  proof (rule new_obj_loop)
    fix i h2 sl2
    assume i: "i < ?n" and l: "length h < length h2" and old: "\<forall>b<length h. h2 ! b = h ! b"
      and sl2: "h2 ! length h = ObjArr sl2" "length sl2 = ?n"
    from src i obtain a where a: "sl ! i = Some a" "a < length h"
      "h ! a = NumArr (fst (ts ! i)) (snd (ts ! i))" by blast
    from rank i len have rk: "length (fst (ts ! i)) \<noteq> 1" by simp
    have "construct_values_step v (length h) i h2
      = (Inr (), (h2 @ [NumArr (fst (ts ! i)) (snd (ts ! i))])
            [length h := ObjArr (sl2[i := Some (length h2)])])"
      using v l obj i a old rk sl2
      by (intro construct_values_step_ok [where sl = sl and a = a]) simp_all
    then show "\<exists>ys. construct_values_step v (length h) i h2
       = (Inr (), (h2 @ ys @ [NumArr (fst (ts ! i)) (snd (ts ! i))])
            [length h := ObjArr (sl2[i := Some (length h2 + length ys)])])"
      by (intro exI [of _ "[]"]) simp
  qed
  then obtain h' where loop: "for_range ?n (construct_values_step v (length h))
         (h @ [ObjArr (replicate ?n None)]) = (Inr (), h')"
    and rest: "extends h h'" "length h < length h'" "is_obj (h' ! length h)"
      "raw_tensors h' (length h) = Some (map (\<lambda>k. ts ! k) [0..<?n])" by blast
  have "map (\<lambda>k. ts ! k) [0..<?n] = ts" using len map_nth [of ts] by simp
  moreover have "construct_values (PyArray v) h = (Inr \<lparr>IS_AOA = True, values = length h\<rparr>, h')"
    using v obj loop by (simp add: construct_values_def bnd_def load_def alloc_def ret_def)
  ultimately show ?thesis using rest by simp
qed

lemma wf_storeD:
  assumes "wf_store h d"
  shows "raw_tensors h (values d) = Some (tensors h d) \<and> IS_AOA d = is_obj (h ! values d)
     \<and> (\<forall>t\<in>set (tensors h d). wf_tensor t) \<and> values d < length h"
proof -
  from assms obtain ts where ts: "raw_tensors h (values d) = Some ts"
    and rest: "IS_AOA d = is_obj (h ! values d)" "list_all wf_tensor ts"
    by (auto simp: wf_store_def split: option.splits)
  from ts have "values d < length h" by (auto simp: raw_tensors_def split: if_splits)
  with ts rest show ?thesis by (simp add: tensors_def list_all_iff)
qed

lemma bshape_rev_length:
  "bshape_rev xs ys = Some rs \<Longrightarrow> length rs = max (length xs) (length ys)"
proof (induction xs ys arbitrary: rs rule: bshape_rev.induct)
  case (1 ys)
  then show ?case by simp
next
  case (2 x xs)
  then show ?case by auto
next
  case (3 x xs y ys)
  then show ?case by (auto split: if_splits)
qed

lemma broadcast_shapes_length:
  "broadcast_shapes s1 s2 = Some rs \<Longrightarrow> length rs = max (length s1) (length s2)"
  using bshape_rev_length [of "rev s1" "rev s2"] by (auto simp: broadcast_shapes_def)

lemma np_binop_rank:
  assumes "np_binop f t1 t2 = Some t"
  shows "length (fst t) = max (length (fst t1)) (length (fst t2))"
proof -
  obtain s1 d1 s2 d2 where t: "t1 = (s1, d1)" "t2 = (s2, d2)" by (cases t1; cases t2) auto
  with assms obtain rs where "broadcast_shapes s1 s2 = Some rs" "fst t = rs"
    by (auto split: option.splits)
  with broadcast_shapes_length [of s1 s2 rs] t show ?thesis by simp
qed

lemma np_binop_new_ok:
  assumes "np_binop f t1 t2 = Some t" "fst t \<noteq> []"
  shows "np_binop_new f t1 t2 h = (Inr (length h), h @ [NumArr (fst t) (snd t)])"
  using assms by (cases t) (simp add: np_binop_new_def alloc_def)

lemma slot_binop_ok:
  assumes "a < length h" "h ! a = NumArr sh dt" "np_binop f (sh, dt) y = Some t" "fst t \<noteq> []"
  shows "slot_binop f (Some a) y h = (Inr (length h), h @ [NumArr (fst t) (snd t)])"
  using assms np_binop_new_ok [OF assms(3,4), of h]
  by (simp add: slot_binop_def bnd_def load_def)

lemma slot_tensor_ok:
  assumes "a < length h" "h ! a = NumArr sh dt"
  shows "slot_tensor (Some a) h = (Inr (sh, dt), h)"
  using assms by (simp add: slot_tensor_def bnd_def load_def ret_def)

lemma arith_scalar_step_ok:
  assumes "i < length sl" "sl ! i = Some a" "a < length h" "h ! a = NumArr sh dt"
    "np_binop f (sh, dt) (scalar x) = Some t" "fst t \<noteq> []"
    "r < length h" "h ! r = ObjArr sl2" "i < length sl2"
  shows "arith_scalar_step f sl x r i h
     = (Inr (), (h @ [NumArr (fst t) (snd t)])[r := ObjArr (sl2[i := Some (length h)])])"
proof -
  have b: "slot_binop f (sl ! i) (scalar x) h = (Inr (length h), h @ [NumArr (fst t) (snd t)])"
    using slot_binop_ok [OF assms(3,4,5,6)] assms(2) by simp
  have s: "set_slot r i (Some (length h)) (h @ [NumArr (fst t) (snd t)])
      = (Inr (), (h @ [NumArr (fst t) (snd t)])[r := ObjArr (sl2[i := Some (length h)])])"
    using assms(7,8,9) by (intro set_slot_ok) (simp_all add: nth_append)
  show ?thesis by (simp add: arith_scalar_step_def bnd_def b s)
qed

lemma arith_object_step_ok:
  assumes "i < length sl" "sl ! i = Some a" "a < length h" "h ! a = NumArr sh dt"
    "length sl2 = length sl" "sl2 ! i = Some b" "b < length h" "h ! b = NumArr sh2 dt2"
    "np_binop f (sh, dt) (sh2, dt2) = Some t" "fst t \<noteq> []"
    "r < length h" "h ! r = ObjArr sl3" "i < length sl3"
  shows "arith_object_step f sl sl2 (length sl) r i h
     = (Inr (), (h @ [NumArr (fst t) (snd t)])[r := ObjArr (sl3[i := Some (length h)])])"
proof -
  have ix: "bidx [length sl] [length sl] i = i" using assms(1) by (simp add: bidx_same)
  have y: "slot_tensor (sl2 ! bidx [length sl] [length sl2] i) h = (Inr (sh2, dt2), h)"
    using slot_tensor_ok [OF assms(7,8)] assms(5,6) ix by simp
  have b: "slot_binop f (sl ! bidx [length sl] [length sl] i) (sh2, dt2) h
      = (Inr (length h), h @ [NumArr (fst t) (snd t)])"
    using slot_binop_ok [OF assms(3,4,9,10)] assms(2) ix by simp
  have s: "set_slot r i (Some (length h)) (h @ [NumArr (fst t) (snd t)])
      = (Inr (), (h @ [NumArr (fst t) (snd t)])[r := ObjArr (sl3[i := Some (length h)])])"
    using assms(11,12,13) by (intro set_slot_ok) (simp_all add: nth_append)
  show ?thesis by (simp add: arith_object_step_def bnd_def y b s)
qed

lemma num_at_extends:
  assumes "extends h h'" "num_at h s = Some t"
  shows "num_at h' s = Some t"
proof -
  from assms(2) obtain a where a: "s = Some a" "a < length h" "h ! a = NumArr (fst t) (snd t)"
    by (auto simp: num_at_Some)
  with extendsD [OF assms(1)] have "a < length h'" "h' ! a = NumArr (fst t) (snd t)" by auto
  with a(1) show ?thesis by (simp add: num_at_def)
qed

lemma raw_tensors_extends:
  assumes e: "extends h h'" and ts: "raw_tensors h v = Some ts"
  shows "raw_tensors h' v = Some ts"
proof -
  from ts have v: "v < length h" by (auto simp: raw_tensors_def split: if_splits)
  with extendsD [OF e] have v': "v < length h'" and same: "h' ! v = h ! v" by auto
  show ?thesis
  proof (cases "h ! v")
    case (NumArr sh dt)
    with ts v v' same show ?thesis by (simp add: raw_tensors_def)
  next
    case (ObjArr sl)
    from raw_tensors_obj [OF ts ObjArr] have len: "length ts = length sl"
      and src: "\<forall>i<length sl. \<exists>a. sl ! i = Some a \<and> a < length h \<and> a \<noteq> v
            \<and> h ! a = NumArr (fst (ts ! i)) (snd (ts ! i))" by auto
    have "\<forall>k<length sl. \<exists>a. sl ! k = Some a \<and> a < length h'
        \<and> h' ! a = NumArr (fst (ts ! k)) (snd (ts ! k))"
    proof (intro allI impI)
      fix k assume "k < length sl"
      with src obtain a where a: "sl ! k = Some a" "a < length h"
        "h ! a = NumArr (fst (ts ! k)) (snd (ts ! k))" by blast
      with extendsD [OF e] have "a < length h'" "h' ! a = NumArr (fst (ts ! k)) (snd (ts ! k))"
        by auto
      with a(1) show "\<exists>a. sl ! k = Some a \<and> a < length h'
        \<and> h' ! a = NumArr (fst (ts ! k)) (snd (ts ! k))" by blast
    qed
    with v' same ObjArr have "raw_tensors h' v = Some (map (\<lambda>k. ts ! k) [0..<length sl])"
      by (intro raw_tensors_filled) simp_all
    with len map_nth [of ts] show ?thesis by simp
  qed
qed

lemma np_arith_num:
  assumes "v < length h" "h ! v = NumArr sh dt" "w < length h" "h ! w = NumArr sh2 dt2"
    "np_binop f (sh, dt) (sh2, dt2) = Some t" "fst t \<noteq> []"
  shows "np_arith f v (PyArray w) h = (Inr (length h), h @ [NumArr (fst t) (snd t)])"
  using assms np_binop_new_ok [OF assms(5,6), of h]
  by (simp add: np_arith_def bnd_def load_def)

lemma np_arith_num_scalar:
  assumes "v < length h" "h ! v = NumArr sh dt" "num_val other = Some x"
    "np_binop f (sh, dt) (scalar x) = Some t" "fst t \<noteq> []"
  shows "np_arith f v other h = (Inr (length h), h @ [NumArr (fst t) (snd t)])"
proof (cases other)
  case (PyFloat y)
  with assms np_binop_new_ok [OF assms(4,5), of h] show ?thesis
    by (simp add: np_arith_def bnd_def load_def)
next
  case (PyInt n)
  with assms np_binop_new_ok [OF assms(4,5), of h] show ?thesis
    by (simp add: np_arith_def bnd_def load_def)
qed (use assms(3) in simp_all)

lemma np_arith_obj_scalar:
  assumes ts: "raw_tensors h v = Some ts" and obj: "h ! v = ObjArr sl"
    and x: "num_val other = Some x"
    and ok: "\<forall>i<length ts. \<exists>t. np_binop f (ts ! i) (scalar x) = Some t \<and> fst t \<noteq> []"
  shows "\<exists>h'. np_arith f v other h = (Inr (length h), h')
      \<and> extends h h' \<and> length h < length h' \<and> is_obj (h' ! length h)
      \<and> raw_tensors h' (length h) = Some (zip_tensors f ts (replicate (length ts) (scalar x)))"
proof -
  from raw_tensors_obj [OF ts obj] have v: "v < length h" and len: "length ts = length sl"
    and src: "\<forall>i<length sl. \<exists>a. sl ! i = Some a \<and> a < length h \<and> a \<noteq> v
            \<and> h ! a = NumArr (fst (ts ! i)) (snd (ts ! i))" by auto
  let ?n = "length sl"
  let ?F = "\<lambda>i. the (np_binop f (ts ! i) (scalar x))"
  have "\<exists>h'. for_range ?n (arith_scalar_step f sl x (length h)) (h @ [ObjArr (replicate ?n None)])
        = (Inr (), h')
      \<and> extends h h' \<and> length h < length h' \<and> is_obj (h' ! length h)
      \<and> raw_tensors h' (length h) = Some (map ?F [0..<?n])"
  proof (rule new_obj_loop)
    fix i h2 sl2
    assume i: "i < ?n" and l: "length h < length h2" and old: "\<forall>b<length h. h2 ! b = h ! b"
      and sl2: "h2 ! length h = ObjArr sl2" "length sl2 = ?n"
    from src i obtain a where a: "sl ! i = Some a" "a < length h"
      "h ! a = NumArr (fst (ts ! i)) (snd (ts ! i))" by blast
    from ok i len obtain t where t: "np_binop f (ts ! i) (scalar x) = Some t" "fst t \<noteq> []"
      by auto
    have "arith_scalar_step f sl x (length h) i h2
      = (Inr (), (h2 @ [NumArr (fst t) (snd t)])[length h := ObjArr (sl2[i := Some (length h2)])])"
      using i a l old t sl2
      by (intro arith_scalar_step_ok [where a = a and sh = "fst (ts ! i)" and dt = "snd (ts ! i)"])
        simp_all
    with t(1) show "\<exists>ys. arith_scalar_step f sl x (length h) i h2
       = (Inr (), (h2 @ ys @ [NumArr (fst (?F i)) (snd (?F i))])
            [length h := ObjArr (sl2[i := Some (length h2 + length ys)])])"
      by (intro exI [of _ "[]"]) simp
  qed
  then obtain h' where loop: "for_range ?n (arith_scalar_step f sl x (length h))
         (h @ [ObjArr (replicate ?n None)]) = (Inr (), h')"
    and rest: "extends h h'" "length h < length h'" "is_obj (h' ! length h)"
      "raw_tensors h' (length h) = Some (map ?F [0..<?n])" by blast
  have z: "map ?F [0..<?n] = zip_tensors f ts (replicate (length ts) (scalar x))"
    using len by (simp add: zip_tensors_def)
  have "np_arith f v other h = (Inr (length h), h')"
  proof (cases other)
    case (PyFloat y)
    with x v obj loop show ?thesis
      by (simp add: np_arith_def bnd_def load_def alloc_def ret_def)
  next
    case (PyInt n)
    with x v obj loop show ?thesis
      by (simp add: np_arith_def bnd_def load_def alloc_def ret_def)
  qed (use x in simp_all)
  with rest z show ?thesis by simp
qed

lemma np_arith_obj:
  assumes ts: "raw_tensors h v = Some ts" and obj: "h ! v = ObjArr sl"
    and ts2: "raw_tensors h w = Some ts2" and obj2: "h ! w = ObjArr sl2"
    and same: "length ts2 = length ts"
    and ok: "\<forall>i<length ts. \<exists>t. np_binop f (ts ! i) (ts2 ! i) = Some t \<and> fst t \<noteq> []"
  shows "\<exists>h'. np_arith f v (PyArray w) h = (Inr (length h), h')
      \<and> extends h h' \<and> length h < length h' \<and> is_obj (h' ! length h)
      \<and> raw_tensors h' (length h) = Some (zip_tensors f ts ts2)"
proof -
  from raw_tensors_obj [OF ts obj] have v: "v < length h" and len: "length ts = length sl"
    and src: "\<forall>i<length sl. \<exists>a. sl ! i = Some a \<and> a < length h \<and> a \<noteq> v
            \<and> h ! a = NumArr (fst (ts ! i)) (snd (ts ! i))" by auto
  from raw_tensors_obj [OF ts2 obj2] have w: "w < length h" and len2: "length ts2 = length sl2"
    and src2: "\<forall>i<length sl2. \<exists>a. sl2 ! i = Some a \<and> a < length h \<and> a \<noteq> w
            \<and> h ! a = NumArr (fst (ts2 ! i)) (snd (ts2 ! i))" by auto
  from same len len2 have ll: "length sl2 = length sl" by simp
  let ?n = "length sl"
  let ?F = "\<lambda>i. the (np_binop f (ts ! i) (ts2 ! i))"
  have "\<exists>h'. for_range ?n (arith_object_step f sl sl2 ?n (length h))
          (h @ [ObjArr (replicate ?n None)]) = (Inr (), h')
      \<and> extends h h' \<and> length h < length h' \<and> is_obj (h' ! length h)
      \<and> raw_tensors h' (length h) = Some (map ?F [0..<?n])"
  proof (rule new_obj_loop)
    fix i h2 sl3
    assume i: "i < ?n" and l: "length h < length h2" and old: "\<forall>b<length h. h2 ! b = h ! b"
      and sl3: "h2 ! length h = ObjArr sl3" "length sl3 = ?n"
    from src i obtain a where a: "sl ! i = Some a" "a < length h"
      "h ! a = NumArr (fst (ts ! i)) (snd (ts ! i))" by blast
    from src2 i ll obtain b where b: "sl2 ! i = Some b" "b < length h"
      "h ! b = NumArr (fst (ts2 ! i)) (snd (ts2 ! i))" by auto
    from ok i len obtain t where t: "np_binop f (ts ! i) (ts2 ! i) = Some t" "fst t \<noteq> []"
      by auto
    have "arith_object_step f sl sl2 ?n (length h) i h2
      = (Inr (), (h2 @ [NumArr (fst t) (snd t)])[length h := ObjArr (sl3[i := Some (length h2)])])"
      using i a b l old t sl3 ll
      by (intro arith_object_step_ok [where a = a and b = b and sh = "fst (ts ! i)"
            and dt = "snd (ts ! i)" and ?sh2.0 = "fst (ts2 ! i)" and ?dt2.0 = "snd (ts2 ! i)"])
        simp_all
    with t(1) show "\<exists>ys. arith_object_step f sl sl2 ?n (length h) i h2
       = (Inr (), (h2 @ ys @ [NumArr (fst (?F i)) (snd (?F i))])
            [length h := ObjArr (sl3[i := Some (length h2 + length ys)])])"
      by (intro exI [of _ "[]"]) simp
  qed
  then obtain h' where loop: "for_range ?n (arith_object_step f sl sl2 ?n (length h))
         (h @ [ObjArr (replicate ?n None)]) = (Inr (), h')"
    and rest: "extends h h'" "length h < length h'" "is_obj (h' ! length h)"
      "raw_tensors h' (length h) = Some (map ?F [0..<?n])" by blast
  have z: "map ?F [0..<?n] = zip_tensors f ts ts2"
    using len by (simp add: zip_tensors_def)
  have "np_arith f v (PyArray w) h = (Inr (length h), h')"
    using v w obj obj2 ll loop
    by (simp add: np_arith_def bnd_def load_def alloc_def ret_def)
  with rest z show ?thesis by simp
qed

lemma arith_unwrap:
  "arith f self other
     = bnd (np_arith f (values self) (unwrap other)) (\<lambda>v. construct_values (PyArray v))"
  by (cases other) (simp_all add: arith_def)

lemma construct_values_fresh:
  assumes ts: "raw_tensors h r = Some ts" and rank: "\<forall>t\<in>set ts. length (fst t) \<noteq> 1"
  shows "\<exists>d h'. construct_values (PyArray r) h = (Inr d, h') \<and> values d = length h
      \<and> IS_AOA d = is_obj (h ! r) \<and> extends h h' \<and> raw_tensors h' (values d) = Some ts"
proof (cases "h ! r")
  case (NumArr sh dt)
  from raw_tensors_num [OF ts NumArr] have r: "r < length h" and t: "ts = [(sh, dt)]" by auto
  from rank t have "length sh \<noteq> 1" by simp
  from construct_values_num [OF r NumArr this] NumArr t show ?thesis
    by (simp add: raw_tensors_def)
next
  case (ObjArr sl)
  from construct_values_obj [OF ts ObjArr rank] ObjArr show ?thesis by auto
qed

lemma zip_tensors_single: "zip_tensors f [t1] [t2] = [the (np_binop f t1 t2)]"
  by (simp add: zip_tensors_def)

lemma np_arith_ok:
  assumes ts: "raw_tensors h v = Some ts"
    and op: "operand_tensors h v (length ts) other = Some ts2"
    and same: "length ts2 = length ts"
    and ok: "\<forall>i<length ts. \<exists>t. np_binop f (ts ! i) (ts2 ! i) = Some t \<and> fst t \<noteq> []"
  shows "\<exists>h'. np_arith f v (unwrap other) h = (Inr (length h), h')
      \<and> extends h h' \<and> length h < length h' \<and> is_obj (h' ! length h) = is_obj (h ! v)
      \<and> raw_tensors h' (length h) = Some (zip_tensors f ts ts2)"
proof (cases "\<exists>w. unwrap other = PyArray w")
  case True
  then obtain w where w: "unwrap other = PyArray w" by blast
  with op have kind: "is_obj (h ! w) = is_obj (h ! v)" and ts2: "raw_tensors h w = Some ts2"
    by (auto simp: operand_tensors_def split: if_splits)
  show ?thesis
  proof (cases "h ! v")
    case (NumArr sh dt)
    from kind NumArr obtain sh2 dt2 where n2: "h ! w = NumArr sh2 dt2" by (cases "h ! w") auto
    from raw_tensors_num [OF ts NumArr] have v: "v < length h" and t1: "ts = [(sh, dt)]" by auto
    from raw_tensors_num [OF ts2 n2] have w': "w < length h" and t2: "ts2 = [(sh2, dt2)]" by auto
    from ok t1 t2 obtain t where t: "np_binop f (sh, dt) (sh2, dt2) = Some t" "fst t \<noteq> []"
      by auto
    from np_arith_num [OF v NumArr w' n2 t] w NumArr t1 t2 t(1) show ?thesis
      by (simp add: raw_tensors_def zip_tensors_single)
  next
    case (ObjArr sl)
    from kind ObjArr obtain sl2 where o2: "h ! w = ObjArr sl2" by (cases "h ! w") auto
    from np_arith_obj [OF ts ObjArr ts2 o2 same ok] w ObjArr show ?thesis by auto
  qed
next
  case False
  with op obtain x where x: "num_val (unwrap other) = Some x"
    and t2: "ts2 = replicate (length ts) (scalar x)"
    by (cases "unwrap other") (auto simp: operand_tensors_def)
  show ?thesis
  proof (cases "h ! v")
    case (NumArr sh dt)
    from raw_tensors_num [OF ts NumArr] have v: "v < length h" and t1: "ts = [(sh, dt)]" by auto
    from ok t1 t2 obtain t where t: "np_binop f (sh, dt) (scalar x) = Some t" "fst t \<noteq> []"
      by auto
    from np_arith_num_scalar [OF v NumArr x t] NumArr t1 t2 t(1) show ?thesis
      by (simp add: raw_tensors_def zip_tensors_single)
  next
    case (ObjArr sl)
    from ok t2 have "\<forall>i<length ts. \<exists>t. np_binop f (ts ! i) (scalar x) = Some t \<and> fst t \<noteq> []"
      by simp
    from np_arith_obj_scalar [OF ts ObjArr x this] ObjArr t2 show ?thesis by auto
  qed
qed

lemma zip_tensors_nth:
  "i < length ts \<Longrightarrow> zip_tensors f ts ts2 ! i = the (np_binop f (ts ! i) (ts2 ! i))"
  by (simp add: zip_tensors_def)

lemma arith_ok:
  assumes ts: "raw_tensors h (values self) = Some ts"
    and op: "operand_tensors h (values self) (length ts) other = Some ts2"
    and same: "length ts2 = length ts"
    and ok: "\<forall>i<length ts. \<exists>t. np_binop f (ts ! i) (ts2 ! i) = Some t \<and> 2 \<le> length (fst t)"
  shows "\<exists>d h'. arith f self other h = (Inr d, h')
      \<and> extends h h' \<and> length h \<le> values d \<and> IS_AOA d = is_obj (h ! values self)
      \<and> raw_tensors h' (values d) = Some (zip_tensors f ts ts2)"
proof -
  from ok have ok': "\<forall>i<length ts. \<exists>t. np_binop f (ts ! i) (ts2 ! i) = Some t \<and> fst t \<noteq> []"
    by fastforce
  from np_arith_ok [OF ts op same ok'] obtain h1 where
    run1: "np_arith f (values self) (unwrap other) h = (Inr (length h), h1)"
    and e1: "extends h h1" and l1: "length h < length h1"
    and k1: "is_obj (h1 ! length h) = is_obj (h ! values self)"
    and r1: "raw_tensors h1 (length h) = Some (zip_tensors f ts ts2)" by blast
  have rank: "\<forall>t\<in>set (zip_tensors f ts ts2). length (fst t) \<noteq> 1"
  proof
    fix t assume "t \<in> set (zip_tensors f ts ts2)"
    then obtain i where i: "i < length ts" "t = the (np_binop f (ts ! i) (ts2 ! i))"
      by (auto simp: zip_tensors_def)
    with ok show "length (fst t) \<noteq> 1" by fastforce
  qed
  from construct_values_fresh [OF r1 rank] obtain d h' where
    run2: "construct_values (PyArray (length h)) h1 = (Inr d, h')"
    and d: "values d = length h1" "IS_AOA d = is_obj (h1 ! length h)"
    and e2: "extends h1 h'" and r2: "raw_tensors h' (values d) = Some (zip_tensors f ts ts2)"
    by blast
  have "arith f self other h = (Inr d, h')"
    by (simp add: arith_unwrap bnd_def run1 run2)
  moreover have "extends h h'" using e1 e2 by (rule extends_trans)
  ultimately show ?thesis using d l1 k1 r2 by auto
qed

lemma wf_tensor_binop_scalar:
  assumes "wf_tensor t"
  shows "np_binop f t (scalar c) = Some (map_tensor (\<lambda>e. f e c) t)"
  using assms np_binop_scalar_r [of "snd t" "fst t" f c]
  by (cases t) (simp add: wf_tensor_def map_tensor_def)

lemma zip_tensors_scalar:
  assumes "\<forall>t\<in>set ts. wf_tensor t"
  shows "zip_tensors f ts (replicate (length ts) (scalar c)) = map (map_tensor (\<lambda>e. f e c)) ts"
proof (rule nth_equalityI)
  show "length (zip_tensors f ts (replicate (length ts) (scalar c)))
      = length (map (map_tensor (\<lambda>e. f e c)) ts)" by (simp add: zip_tensors_def)
next
  fix i assume "i < length (zip_tensors f ts (replicate (length ts) (scalar c)))"
  then have i: "i < length ts" by (simp add: zip_tensors_def)
  with assms have "wf_tensor (ts ! i)" by simp
  from wf_tensor_binop_scalar [OF this, of f c] i
  show "zip_tensors f ts (replicate (length ts) (scalar c)) ! i
      = map (map_tensor (\<lambda>e. f e c)) ts ! i"
    by (simp add: zip_tensors_nth)
qed

lemma arith_scalar:
  assumes wf: "wf_store h a" and c: "num_val other = Some c"
  shows "\<exists>d h'. arith f a other h = (Inr d, h')
      \<and> extends h h' \<and> length h \<le> values d \<and> IS_AOA d = IS_AOA a
      \<and> raw_tensors h' (values d) = Some (map (map_tensor (\<lambda>e. f e c)) (tensors h a))"
proof -
  let ?ts = "tensors h a"
  from wf_storeD [OF wf] have ts: "raw_tensors h (values a) = Some ?ts"
    and flag: "IS_AOA a = is_obj (h ! values a)" and w: "\<forall>t\<in>set ?ts. wf_tensor t" by auto
  let ?ts2 = "replicate (length ?ts) (scalar c)"
  from c have u: "unwrap other = other" by (cases other) simp_all
  have op: "operand_tensors h (values a) (length ?ts) other = Some ?ts2"
    using c u by (cases other) (simp_all add: operand_tensors_def)
  have ok: "\<forall>i<length ?ts. \<exists>t. np_binop f (?ts ! i) (?ts2 ! i) = Some t \<and> 2 \<le> length (fst t)"
  proof (intro allI impI)
    fix i assume i: "i < length ?ts"
    with w have wi: "wf_tensor (?ts ! i)" by simp
    from wf_tensor_binop_scalar [OF wi, of f c] wi i
    show "\<exists>t. np_binop f (?ts ! i) (?ts2 ! i) = Some t \<and> 2 \<le> length (fst t)"
      by (simp add: wf_tensor_def map_tensor_def)
  qed
  have len: "length ?ts2 = length ?ts" by simp
  from arith_ok [OF ts op len ok] zip_tensors_scalar [OF w, of f c] flag
  show ?thesis by simp
qed

lemma arith_store:
  assumes wf: "wf_store h a" and wfb: "wf_store h b"
    and kind: "is_obj (h ! values b) = is_obj (h ! values a)"
    and same: "length (tensors h b) = length (tensors h a)"
    and compat: "\<forall>i<length (tensors h a).
                   np_binop f (tensors h a ! i) (tensors h b ! i) \<noteq> None"
  shows "\<exists>d h'. arith f a (PyDirichlet b) h = (Inr d, h')
      \<and> extends h h' \<and> length h \<le> values d \<and> IS_AOA d = IS_AOA a
      \<and> raw_tensors h' (values d) = Some (zip_tensors f (tensors h a) (tensors h b))"
proof -
  let ?ts = "tensors h a" and ?ts2 = "tensors h b"
  from wf_storeD [OF wf] have ts: "raw_tensors h (values a) = Some ?ts"
    and flag: "IS_AOA a = is_obj (h ! values a)" and w: "\<forall>t\<in>set ?ts. wf_tensor t" by auto
  from wf_storeD [OF wfb] have ts2: "raw_tensors h (values b) = Some ?ts2" by simp
  have op: "operand_tensors h (values a) (length ?ts) (PyDirichlet b) = Some ?ts2"
    using kind ts2 by (simp add: operand_tensors_def)
  have ok: "\<forall>i<length ?ts. \<exists>t. np_binop f (?ts ! i) (?ts2 ! i) = Some t \<and> 2 \<le> length (fst t)"
  proof (intro allI impI)
    fix i assume i: "i < length ?ts"
    with compat obtain t where t: "np_binop f (?ts ! i) (?ts2 ! i) = Some t" by auto
    from w i have "2 \<le> length (fst (?ts ! i))" by (simp add: wf_tensor_def)
    with np_binop_rank [OF t] have "2 \<le> length (fst t)" by simp
    with t show "\<exists>t. np_binop f (?ts ! i) (?ts2 ! i) = Some t \<and> 2 \<le> length (fst t)" by blast
  qed
  from arith_ok [OF ts op same ok] flag show ?thesis by simp
qed

lemma zip_tensors_same_shape:
  assumes "i < length ts" "wf_tensor (ts ! i)" "wf_tensor (ts2 ! i)" "fst (ts2 ! i) = fst (ts ! i)"
  shows "zip_tensors f ts ts2 ! i
     = (fst (ts ! i), map (\<lambda>k. f (snd (ts ! i) ! k) (snd (ts2 ! i) ! k))
                          [0..<length (snd (ts ! i))])"
proof -
  obtain s d1 where t1: "ts ! i = (s, d1)" by (cases "ts ! i") auto
  with assms(4) obtain d2 where t2: "ts2 ! i = (s, d2)" by (cases "ts2 ! i") auto
  from assms(2,3) t1 t2 have l: "length d1 = prod_list s" "length d2 = prod_list s"
    by (simp_all add: wf_tensor_def)
  have "np_binop f (s, d1) (s, d2)
      = Some (s, map (\<lambda>k. f (d1 ! k) (d2 ! k)) [0..<prod_list s])"
    using l by (rule np_binop_same)
  then have "the (np_binop f (ts ! i) (ts2 ! i))
      = (s, map (\<lambda>k. f (d1 ! k) (d2 ! k)) [0..<length d1])"
    unfolding t1 t2 l(1) by simp
  with assms(1) t1 t2 show ?thesis
    unfolding zip_tensors_nth [OF assms(1)] by simp
qed

lemma tensors_extends:
  assumes "wf_store h a" "extends h h'"
  shows "tensors h' a = tensors h a"
proof -
  from wf_storeD [OF assms(1)] have "raw_tensors h (values a) = Some (tensors h a)" by simp
  from raw_tensors_extends [OF assms(2) this] show ?thesis
    unfolding tensors_def [of h' a] by simp
qed

text \<open>
  C7. Let \<open>op\<close> be one of \<^verbatim>\<open>__add__\<close>, \<^verbatim>\<open>__sub__\<close>, \<^verbatim>\<open>__mul__\<close> with its float operation
  \<open>f\<close>, and \<open>a\<close> a well-formed store. For a well-formed store \<open>b\<close> of the same
  representation with as many tensors, whose tensors broadcast pairwise against those of
  \<open>a\<close>, \<open>op a b\<close> returns a store over arrays that did not exist before; no array that
  existed before has changed, so \<open>a\<close> and \<open>b\<close> hold what they held; the result has the
  representation of \<open>a\<close> and its tensors are the numpy results \<open>zip_tensors f\<close>, which
  for tensors of equal shape are the entrywise \<open>f\<close> of the two. For a number \<open>c\<close> in
  place of \<open>b\<close> every entry \<open>e\<close> of \<open>a\<close> becomes \<open>f e c\<close>. The reflected methods
  \<^verbatim>\<open>__radd__\<close> and \<^verbatim>\<open>__rmul__\<close> return what \<^verbatim>\<open>__add__\<close> and \<^verbatim>\<open>__mul__\<close> return.
\<close>

theorem arithmetic_pure:
  assumes op: "(op, f) \<in> {(add, fadd), (sub, fsub), (mul, fmul)}"
    and wf: "wf_store h a"
  shows "(wf_store h b \<and> is_obj (h ! values b) = is_obj (h ! values a)
          \<and> length (tensors h b) = length (tensors h a)
          \<and> (\<forall>i<length (tensors h a). np_binop f (tensors h a ! i) (tensors h b ! i) \<noteq> None)
        \<longrightarrow> (\<exists>d h'. op a (PyDirichlet b) h = (Inr d, h')
              \<and> extends h h' \<and> tensors h' a = tensors h a \<and> tensors h' b = tensors h b
              \<and> length h \<le> values d \<and> IS_AOA d = IS_AOA a
              \<and> raw_tensors h' (values d) = Some (zip_tensors f (tensors h a) (tensors h b))
              \<and> (\<forall>i<length (tensors h a). fst (tensors h b ! i) = fst (tensors h a ! i) \<longrightarrow>
                    zip_tensors f (tensors h a) (tensors h b) ! i
                    = (fst (tensors h a ! i),
                       map (\<lambda>k. f (snd (tensors h a ! i) ! k) (snd (tensors h b ! i) ! k))
                           [0..<length (snd (tensors h a ! i))]))))
     \<and> (num_val other = Some c
        \<longrightarrow> (\<exists>d h'. op a other h = (Inr d, h')
              \<and> extends h h' \<and> tensors h' a = tensors h a
              \<and> length h \<le> values d \<and> IS_AOA d = IS_AOA a
              \<and> raw_tensors h' (values d)
                  = Some (map (map_tensor (\<lambda>e. f e c)) (tensors h a))))
     \<and> radd a other h = add a other h \<and> rmul a other h = mul a other h"
proof -
  have "add = arith fadd" "sub = arith fsub" "mul = arith fmul"
    by (intro ext, simp add: add_def sub_def mul_def)+
  with op have opdef: "op = arith f" by auto
  have A: "\<exists>d h'. op a (PyDirichlet b) h = (Inr d, h')
              \<and> extends h h' \<and> tensors h' a = tensors h a \<and> tensors h' b = tensors h b
              \<and> length h \<le> values d \<and> IS_AOA d = IS_AOA a
              \<and> raw_tensors h' (values d) = Some (zip_tensors f (tensors h a) (tensors h b))
              \<and> (\<forall>i<length (tensors h a). fst (tensors h b ! i) = fst (tensors h a ! i) \<longrightarrow>
                    zip_tensors f (tensors h a) (tensors h b) ! i
                    = (fst (tensors h a ! i),
                       map (\<lambda>k. f (snd (tensors h a ! i) ! k) (snd (tensors h b ! i) ! k))
                           [0..<length (snd (tensors h a ! i))]))"
    if wfb: "wf_store h b" and kind: "is_obj (h ! values b) = is_obj (h ! values a)"
      and same: "length (tensors h b) = length (tensors h a)"
      and compat: "\<forall>i<length (tensors h a).
                     np_binop f (tensors h a ! i) (tensors h b ! i) \<noteq> None"
  proof -
    from arith_store [OF wf wfb kind same compat] obtain d h' where
      run: "arith f a (PyDirichlet b) h = (Inr d, h')" and e: "extends h h'"
      and rest: "length h \<le> values d" "IS_AOA d = IS_AOA a"
        "raw_tensors h' (values d) = Some (zip_tensors f (tensors h a) (tensors h b))"
      by blast
    have same_shape: "\<forall>i<length (tensors h a). fst (tensors h b ! i) = fst (tensors h a ! i) \<longrightarrow>
                    zip_tensors f (tensors h a) (tensors h b) ! i
                    = (fst (tensors h a ! i),
                       map (\<lambda>k. f (snd (tensors h a ! i) ! k) (snd (tensors h b ! i) ! k))
                           [0..<length (snd (tensors h a ! i))])"
    proof (intro allI impI)
      fix i assume i: "i < length (tensors h a)"
        and s: "fst (tensors h b ! i) = fst (tensors h a ! i)"
      from wf_storeD [OF wf] i have 1: "wf_tensor (tensors h a ! i)" by simp
      from wf_storeD [OF wfb] i same have 2: "wf_tensor (tensors h b ! i)" by simp
      from zip_tensors_same_shape [OF i 1 2 s]
      show "zip_tensors f (tensors h a) (tensors h b) ! i
                    = (fst (tensors h a ! i),
                       map (\<lambda>k. f (snd (tensors h a ! i) ! k) (snd (tensors h b ! i) ! k))
                           [0..<length (snd (tensors h a ! i))])" .
    qed
    from run e rest same_shape tensors_extends [OF wf e] tensors_extends [OF wfb e]
    show ?thesis unfolding opdef by blast
  qed
  have B: "\<exists>d h'. op a other h = (Inr d, h')
              \<and> extends h h' \<and> tensors h' a = tensors h a
              \<and> length h \<le> values d \<and> IS_AOA d = IS_AOA a
              \<and> raw_tensors h' (values d)
                  = Some (map (map_tensor (\<lambda>e. f e c)) (tensors h a))"
    if c: "num_val other = Some c"
  proof -
    from arith_scalar [OF wf c] obtain d h' where
      run: "arith f a other h = (Inr d, h')" and e: "extends h h'"
      and rest: "length h \<le> values d" "IS_AOA d = IS_AOA a"
        "raw_tensors h' (values d) = Some (map (map_tensor (\<lambda>e. f e c)) (tensors h a))"
      by blast
    from run e rest tensors_extends [OF wf e] show ?thesis unfolding opdef by blast
  qed
  have C: "radd a other h = add a other h \<and> rmul a other h = mul a other h"
    by (simp add: radd_def add_def rmul_def mul_def)
  from A B C show ?thesis by blast
qed

theorem arithmetic_pure_witness:
  "wf_store [NumArr [2, 2] [Fin 1, Fin 2, Fin 3, Fin 4], NumArr [2, 2] [Fin 10, Fin 20, Fin 30, Fin 40]]
     \<lparr>IS_AOA = False, values = 0\<rparr>
   \<and> wf_store [NumArr [2, 2] [Fin 1, Fin 2, Fin 3, Fin 4], NumArr [2, 2] [Fin 10, Fin 20, Fin 30, Fin 40]]
     \<lparr>IS_AOA = False, values = 1\<rparr>
   \<and> (\<exists>d h'. add \<lparr>IS_AOA = False, values = 0\<rparr> (PyDirichlet \<lparr>IS_AOA = False, values = 1\<rparr>)
          [NumArr [2, 2] [Fin 1, Fin 2, Fin 3, Fin 4], NumArr [2, 2] [Fin 10, Fin 20, Fin 30, Fin 40]]
        = (Inr d, h')
      \<and> h' ! 0 = NumArr [2, 2] [Fin 1, Fin 2, Fin 3, Fin 4]
      \<and> h' ! 1 = NumArr [2, 2] [Fin 10, Fin 20, Fin 30, Fin 40]
      \<and> 2 \<le> values d
      \<and> raw_tensors h' (values d) = Some [([2, 2], [Fin 11, Fin 22, Fin 33, Fin 44])])
   \<and> (\<exists>d h'. add \<lparr>IS_AOA = False, values = 0\<rparr> (PyFloat (Fin 2))
          [NumArr [2, 2] [Fin 1, Fin 2, Fin 3, Fin 4], NumArr [2, 2] [Fin 10, Fin 20, Fin 30, Fin 40]]
        = (Inr d, h')
      \<and> raw_tensors h' (values d) = Some [([2, 2], [Fin 3, Fin 4, Fin 5, Fin 6])])"
proof -
  let ?h = "[NumArr [2, 2] [Fin 1, Fin 2, Fin 3, Fin 4], NumArr [2, 2] [Fin 10, Fin 20, Fin 30, Fin 40]]"
  let ?a = "\<lparr>IS_AOA = False, values = 0\<rparr>" and ?b = "\<lparr>IS_AOA = False, values = 1\<rparr>"
  have op: "(add, fadd) \<in> {(add, fadd), (sub, fsub), (mul, fmul)}" by simp
  have wfa: "wf_store ?h ?a" and wfb: "wf_store ?h ?b"
    by (simp_all add: wf_store_def raw_tensors_def wf_tensor_def)
  have ta: "tensors ?h ?a = [([2, 2], [Fin 1, Fin 2, Fin 3, Fin 4])]"
    and tb: "tensors ?h ?b = [([2, 2], [Fin 10, Fin 20, Fin 30, Fin 40])]"
    by (simp_all add: tensors_def raw_tensors_def)
  have z: "zip_tensors fadd (tensors ?h ?a) (tensors ?h ?b)
      = [([2, 2], [Fin 11, Fin 22, Fin 33, Fin 44])]"
    unfolding ta tb
    by (simp add: zip_tensors_def broadcast_shapes_def bidx_def upt_conv_Cons)
  have hyp: "wf_store ?h ?b \<and> is_obj (?h ! values ?b) = is_obj (?h ! values ?a)
          \<and> length (tensors ?h ?b) = length (tensors ?h ?a)
          \<and> (\<forall>i<length (tensors ?h ?a).
                np_binop fadd (tensors ?h ?a ! i) (tensors ?h ?b ! i) \<noteq> None)"
    using wfb unfolding ta tb by (simp add: broadcast_shapes_def)
  note T = arithmetic_pure [OF op wfa, of ?b "PyFloat (Fin 2)" "Fin 2"]
  from T [THEN conjunct1, rule_format, OF hyp] obtain d h' where
    1: "add ?a (PyDirichlet ?b) ?h = (Inr d, h')" "extends ?h h'" "length ?h \<le> values d"
      "raw_tensors h' (values d) = Some (zip_tensors fadd (tensors ?h ?a) (tensors ?h ?b))"
    by blast
  from extendsD [OF 1(2)] have 2: "h' ! 0 = ?h ! 0" "h' ! 1 = ?h ! 1" by simp_all
  have n: "num_val (PyFloat (Fin 2)) = Some (Fin 2)" by simp
  from T [THEN conjunct2, THEN conjunct1, rule_format, OF n] obtain d2 h2 where
    3: "add ?a (PyFloat (Fin 2)) ?h = (Inr d2, h2)"
      "raw_tensors h2 (values d2) = Some (map (map_tensor (\<lambda>e. fadd e (Fin 2))) (tensors ?h ?a))"
    by blast
  have 4: "map (map_tensor (\<lambda>e. fadd e (Fin 2))) (tensors ?h ?a)
      = [([2, 2], [Fin 3, Fin 4, Fin 5, Fin 6])]"
    unfolding ta by (simp add: map_tensor_def)
  from 1 2 3 wfa wfb show ?thesis unfolding z 4 by auto
qed

text \<open>
  C9. For a well-formed store \<open>a\<close> and a number \<open>c\<close> (a Python float or int),
  \<^verbatim>\<open>__rsub__\<close>, the method Python calls for \<open>c - a\<close>, returns exactly what \<^verbatim>\<open>__sub__\<close>
  returns for \<open>a - c\<close>: a new store in which every entry \<open>e\<close> of \<open>a\<close> has become
  \<open>e - c\<close>, not \<open>c - e\<close>.
\<close>

theorem rsub_is_sub:
  assumes "wf_store h a" and "num_val other = Some c"
  shows "\<exists>d h'. rsub a other h = (Inr d, h') \<and> sub a other h = (Inr d, h')
      \<and> extends h h' \<and> length h \<le> values d \<and> IS_AOA d = IS_AOA a
      \<and> raw_tensors h' (values d) = Some (map (map_tensor (\<lambda>e. fsub e c)) (tensors h a))"
  using arith_scalar [OF assms, of fsub] by (simp add: rsub_def sub_def)

theorem rsub_is_sub_witness:
  "wf_store [NumArr [2, 1] [Fin 1, Fin 2]] \<lparr>IS_AOA = False, values = 0\<rparr>
   \<and> num_val (PyFloat (Fin 5)) = Some (Fin 5)
   \<and> (\<exists>d h'. rsub \<lparr>IS_AOA = False, values = 0\<rparr> (PyFloat (Fin 5)) [NumArr [2, 1] [Fin 1, Fin 2]]
          = (Inr d, h')
        \<and> raw_tensors h' (values d) = Some [([2, 1], [Fin (- 4), Fin (- 3)])])"
proof -
  let ?h = "[NumArr [2, 1] [Fin 1, Fin 2]]" and ?a = "\<lparr>IS_AOA = False, values = 0\<rparr>"
  have wfa: "wf_store ?h ?a" by (simp add: wf_store_def raw_tensors_def wf_tensor_def)
  have n: "num_val (PyFloat (Fin 5)) = Some (Fin 5)" by simp
  have t: "map (map_tensor (\<lambda>e. fsub e (Fin 5))) (tensors ?h ?a)
      = [([2, 1], [Fin (- 4), Fin (- 3)])]"
    by (simp add: tensors_def raw_tensors_def map_tensor_def fsub_def)
  from rsub_is_sub [OF wfa n] wfa n show ?thesis unfolding t by blast
qed

subsection \<open>normalize\<close>

lemma flat_index_less:
  assumes "i < n" "j < (m::nat)"
  shows "i * m + j < n * m"
proof -
  from assms(2) have "i * m + j < i * m + m" by simp
  also have "\<dots> = Suc i * m" by simp
  also from assms(1) have "\<dots> \<le> n * m" by (intro mult_le_mono1) simp
  finally show ?thesis .
qed

lemma flat_index_mod: "j < (m::nat) \<Longrightarrow> (i * m + j) mod m = j"
  by simp

lemma np_sum_axis0_nth:
  assumes "fst t = n # rest" "j < prod_list rest"
  shows "snd (np_sum_axis0 t) ! j = col_sum t j"
proof -
  obtain dt where t: "t = (n # rest, dt)" using assms(1) by (cases t) auto
  show ?thesis using assms(2) by (simp add: t col_sum_def entry_def rows_def cols_def)
qed

lemma np_sum_axis0_shape: "fst t = n # rest \<Longrightarrow> fst (np_sum_axis0 t) = rest"
  by (cases t) auto

lemma normalize_tensor_eq:
  assumes "fst t = n # rest"
  shows "normalize_tensor t
     = (n # rest, nan_to (fdiv (Fin 1) (Fin (real n)))
          (map (\<lambda>k. fdiv (snd t ! k) (snd (np_sum_axis0 t) ! (k mod prod_list rest)))
               [0..<n * prod_list rest]))"
proof -
  obtain dt where t: "t = (n # rest, dt)" using assms by (cases t) auto
  obtain c where c: "np_sum_axis0 t = (rest, c)"
    using np_sum_axis0_shape [OF assms] by (cases "np_sum_axis0 t") auto
  have "np_binop fdiv (n # rest, dt) (rest, c)
      = Some (n # rest, map (\<lambda>k. fdiv (dt ! k) (c ! (k mod prod_list rest)))
                            [0..<n * prod_list rest])"
    by (rule np_binop_axis0_r)
  then show ?thesis unfolding normalize_tensor_def c unfolding t
    by (simp del: np_binop.simps fdiv.simps)
qed

lemma normalize_tensor_shape:
  "fst t \<noteq> [] \<Longrightarrow> fst (normalize_tensor t) = fst t"
  using normalize_tensor_eq [of t "hd (fst t)" "tl (fst t)"] by simp

lemma normalize_tensor_length:
  "fst t \<noteq> [] \<Longrightarrow> length (snd (normalize_tensor t)) = prod_list (fst t)"
proof -
  assume "fst t \<noteq> []"
  then obtain n rest where s: "fst t = n # rest" by (cases "fst t") auto
  from normalize_tensor_eq [OF s] s show ?thesis by (simp add: nan_to_def)
qed

lemma normalize_tensor_entry:
  assumes s: "fst t \<noteq> []" and i: "i < rows t" and j: "j < cols t"
  shows "entry (normalize_tensor t) i j
     = (if isnan (fdiv (entry t i j) (col_sum t j)) then Fin (1 / real (rows t))
        else fdiv (entry t i j) (col_sum t j))"
proof -
  from s obtain n rest where sh: "fst t = n # rest" by (cases "fst t") auto
  let ?m = "prod_list rest"
  from i j sh have i': "i < n" and j': "j < ?m" by (simp_all add: rows_def cols_def)
  have k: "i * ?m + j < n * ?m" using i' j' by (rule flat_index_less)
  have jm: "j mod ?m = j" using j' by simp
  have cs: "snd (np_sum_axis0 t) ! j = col_sum t j" using sh j' by (rule np_sum_axis0_nth)
  from i' have n0: "real n \<noteq> 0" by simp
  have c': "cols (normalize_tensor t) = ?m"
    using normalize_tensor_shape [OF s] sh by (simp add: cols_def)
  have "entry (normalize_tensor t) i j = snd (normalize_tensor t) ! (i * ?m + j)"
    by (simp add: entry_def c')
  also have "\<dots> = (if isnan (fdiv (snd t ! (i * ?m + j)) (col_sum t j))
                   then fdiv (Fin 1) (Fin (real n))
                   else fdiv (snd t ! (i * ?m + j)) (col_sum t j))"
    unfolding normalize_tensor_eq [OF sh] using k jm cs by (simp add: nan_to_def del: fdiv.simps)
  also have "\<dots> = (if isnan (fdiv (entry t i j) (col_sum t j)) then Fin (1 / real (rows t))
        else fdiv (entry t i j) (col_sum t j))"
    using n0 sh by (simp add: entry_def cols_def rows_def)
  finally show ?thesis .
qed

lemma nan_to_no_nan: "\<not> isnan u \<Longrightarrow> \<forall>e\<in>set (nan_to u xs). \<not> isnan e"
  by (auto simp: nan_to_def)

lemma uniform_not_nan: "\<not> isnan (fdiv (Fin 1) (Fin (real n)))"
  by (simp add: inf_of_sign_def)

lemma normalize_tensor_no_nan:
  assumes "fst t \<noteq> []"
  shows "\<forall>e\<in>set (snd (normalize_tensor t)). \<not> isnan e"
proof -
  from assms obtain n rest where sh: "fst t = n # rest" by (cases "fst t") auto
  show ?thesis unfolding normalize_tensor_eq [OF sh] snd_conv
    by (rule nan_to_no_nan) (rule uniform_not_nan)
qed

lemma foldl_fadd_fin:
  "foldl fadd (Fin a) (map (\<lambda>i. Fin (x i)) [0..<n]) = Fin (a + sum x {..<n})"
  by (induction n) (simp_all add: add.assoc)

lemma col_sum_finite:
  assumes "\<forall>i<rows t. entry t i j = Fin (x i)"
  shows "col_sum t j = Fin (sum x {..<rows t})"
proof -
  have "map (\<lambda>i. entry t i j) [0..<rows t] = map (\<lambda>i. Fin (x i)) [0..<rows t]"
    using assms by simp
  then have "col_sum t j = foldl fadd (Fin 0) (map (\<lambda>i. Fin (x i)) [0..<rows t])"
    unfolding col_sum_def by (rule arg_cong)
  also have "\<dots> = Fin (0 + sum x {..<rows t})" by (rule foldl_fadd_fin)
  finally show ?thesis by simp
qed

lemma normalize_tensor_finite:
  assumes s: "fst t \<noteq> []" and j: "j < cols t"
    and fin: "\<forall>i<rows t. entry t i j = Fin (x i)"
    and nz: "sum x {..<rows t} \<noteq> 0"
  shows "(\<forall>i<rows t. entry (normalize_tensor t) i j = Fin (x i / sum x {..<rows t}))
     \<and> col_sum (normalize_tensor t) j = Fin 1"
proof -
  let ?s = "sum x {..<rows t}"
  have e: "entry (normalize_tensor t) i j = Fin (x i / ?s)" if "i < rows t" for i
    using normalize_tensor_entry [OF s that j] fin that nz col_sum_finite [OF fin] by simp
  have r: "rows (normalize_tensor t) = rows t"
    using normalize_tensor_shape [OF s] by (simp add: rows_def)
  have "\<forall>i<rows (normalize_tensor t). entry (normalize_tensor t) i j = Fin (x i / ?s)"
    using e r by simp
  from col_sum_finite [OF this] r have "col_sum (normalize_tensor t) j = Fin (\<Sum>i<rows t. x i / ?s)"
    by simp
  also have "(\<Sum>i<rows t. x i / ?s) = 1"
    using nz by (simp add: sum_divide_distrib [symmetric])
  finally show ?thesis using e by simp
qed

lemma normalize_tensor_zero_column:
  assumes s: "fst t \<noteq> []" and j: "j < cols t"
    and z: "\<forall>i<rows t. entry t i j = Fin 0"
  shows "\<forall>i<rows t. entry (normalize_tensor t) i j = Fin (1 / real (rows t))"
proof (intro allI impI)
  fix i assume i: "i < rows t"
  from col_sum_finite [of t j "\<lambda>_. 0"] z have "col_sum t j = Fin 0" by simp
  with normalize_tensor_entry [OF s i j] z i
  show "entry (normalize_tensor t) i j = Fin (1 / real (rows t))" by simp
qed

lemma normalize_array_ok:
  assumes a: "a < length h" and arr: "h ! a = NumArr sh dt" and sh: "sh \<noteq> []"
  shows "normalize_array a h
     = (Inr (length h),
        h @ [NumArr (fst (normalize_tensor (sh, dt))) (snd (normalize_tensor (sh, dt)))])"
proof -
  from sh obtain n rest where s: "sh = n # rest" by (cases sh) auto
  obtain c where c: "np_sum_axis0 (n # rest, dt) = (rest, c)"
    using np_sum_axis0_shape [of "(n # rest, dt)" n rest]
    by (cases "np_sum_axis0 (n # rest, dt)") auto
  define q where "q = map (\<lambda>k. fdiv (dt ! k) (c ! (k mod prod_list rest))) [0..<n * prod_list rest]"
  have b: "np_binop fdiv (sh, dt) (np_sum_axis0 (sh, dt)) = Some (sh, q)"
    unfolding s c q_def by (rule np_binop_axis0_r)
  have nt: "normalize_tensor (sh, dt) = (sh, nan_to (fdiv (Fin 1) (Fin (real (hd sh)))) q)"
    unfolding normalize_tensor_def b by simp
  have 1: "np_binop_new fdiv (sh, dt) (np_sum_axis0 (sh, dt)) h = (Inr (length h), h @ [NumArr sh q])"
    using np_binop_new_ok [OF b, of h] sh by simp
  have 2: "load (length h) (h @ [NumArr sh q]) = (Inr (NumArr sh q), h @ [NumArr sh q])"
    by (simp add: load_def)
  have 3: "store (length h) obj (h @ [NumArr sh q]) = (Inr (), h @ [obj])" for obj
    by (simp add: store_def)
  have l: "load a h = (Inr (NumArr sh dt), h)" using load_ok [OF a] arr by simp
  show ?thesis
    unfolding normalize_array_def nt
    by (simp add: bnd_def l sh 1 2 3 ret_def del: np_binop.simps fdiv.simps)
qed

lemma normalize_step_ok:
  assumes "v < length h" "h ! v = ObjArr sl" "i < length sl" "sl ! i = Some a" "a < length h"
    "h ! a = NumArr sh dt" "sh \<noteq> []" "r < length h" "h ! r = ObjArr sl2" "i < length sl2"
  shows "normalize_step v r i h
     = (Inr (), (h @ [NumArr (fst (normalize_tensor (sh, dt))) (snd (normalize_tensor (sh, dt)))])
                [r := ObjArr (sl2[i := Some (length h)])])"
proof -
  let ?new = "NumArr (fst (normalize_tensor (sh, dt))) (snd (normalize_tensor (sh, dt)))"
  have g: "get_slot v i h = (Inr (Some a), h)"
    using get_slot_ok [OF assms(1,2,3)] assms(4) by simp
  have n: "normalize_array a h = (Inr (length h), h @ [?new])"
    using assms(5,6,7) by (rule normalize_array_ok)
  have s: "set_slot r i (Some (length h)) (h @ [?new])
      = (Inr (), (h @ [?new])[r := ObjArr (sl2[i := Some (length h)])])"
    using assms(8,9,10) by (intro set_slot_ok) (simp_all add: nth_append)
  show ?thesis by (simp add: normalize_step_def bnd_def g n s)
qed

lemma normalize_dense:
  assumes v: "values self < length h" and arr: "h ! values self = NumArr sh dt"
    and sh: "sh \<noteq> []" and flag: "\<not> IS_AOA self"
  shows "normalize self h
     = (Inr (Suc (length h)),
        h @ [zeros sh, NumArr (fst (normalize_tensor (sh, dt))) (snd (normalize_tensor (sh, dt)))])"
proof -
  let ?h1 = "h @ [zeros sh]"
  have "normalize_array (values self) ?h1
     = (Inr (length ?h1),
        ?h1 @ [NumArr (fst (normalize_tensor (sh, dt))) (snd (normalize_tensor (sh, dt)))])"
    using v arr sh by (intro normalize_array_ok) (simp_all add: nth_append)
  then show ?thesis
    using v arr flag by (simp add: normalize_def bnd_def load_def alloc_def zeros_def)
qed

lemma normalize_ragged:
  assumes ts: "raw_tensors h v = Some ts" and obj: "h ! v = ObjArr sl"
    and rank: "\<forall>t\<in>set ts. fst t \<noteq> []" and flag: "IS_AOA self" and v: "values self = v"
  shows "\<exists>h'. normalize self h = (Inr (length h), h')
      \<and> extends h h' \<and> length h < length h' \<and> is_obj (h' ! length h)
      \<and> raw_tensors h' (length h) = Some (map normalize_tensor ts)"
proof -
  from raw_tensors_obj [OF ts obj] have vl: "v < length h" and len: "length ts = length sl"
    and src: "\<forall>i<length sl. \<exists>a. sl ! i = Some a \<and> a < length h \<and> a \<noteq> v
            \<and> h ! a = NumArr (fst (ts ! i)) (snd (ts ! i))" by auto
  let ?n = "length sl"
  let ?F = "\<lambda>k. normalize_tensor (ts ! k)"
  have "\<exists>h'. for_range ?n (normalize_step v (length h)) (h @ [ObjArr (replicate ?n None)])
        = (Inr (), h')
      \<and> extends h h' \<and> length h < length h' \<and> is_obj (h' ! length h)
      \<and> raw_tensors h' (length h) = Some (map ?F [0..<?n])"
  proof (rule new_obj_loop)
    fix i h2 sl2
    assume i: "i < ?n" and l: "length h < length h2" and old: "\<forall>b<length h. h2 ! b = h ! b"
      and sl2: "h2 ! length h = ObjArr sl2" "length sl2 = ?n"
    from src i obtain a where a: "sl ! i = Some a" "a < length h"
      "h ! a = NumArr (fst (ts ! i)) (snd (ts ! i))" by blast
    from rank i len have rk: "fst (ts ! i) \<noteq> []" by simp
    have "normalize_step v (length h) i h2
      = (Inr (), (h2 @ [NumArr (fst (normalize_tensor (fst (ts ! i), snd (ts ! i))))
                               (snd (normalize_tensor (fst (ts ! i), snd (ts ! i))))])
            [length h := ObjArr (sl2[i := Some (length h2)])])"
      using vl l obj i a old rk sl2
      by (intro normalize_step_ok [where sl = sl and a = a]) simp_all
    then show "\<exists>ys. normalize_step v (length h) i h2
       = (Inr (), (h2 @ ys @ [NumArr (fst (?F i)) (snd (?F i))])
            [length h := ObjArr (sl2[i := Some (length h2 + length ys)])])"
      by (intro exI [of _ "[]"]) simp
  qed
  then obtain h' where loop: "for_range ?n (normalize_step v (length h))
         (h @ [ObjArr (replicate ?n None)]) = (Inr (), h')"
    and rest: "extends h h'" "length h < length h'" "is_obj (h' ! length h)"
      "raw_tensors h' (length h) = Some (map ?F [0..<?n])" by blast
  have "map ?F [0..<?n] = map normalize_tensor ts"
    using len by (intro map_upt_nth_list) simp
  moreover have "normalize self h = (Inr (length h), h')"
    using vl obj loop flag v by (simp add: normalize_def bnd_def load_def alloc_def ret_def)
  ultimately show ?thesis using rest by simp
qed

lemma normalize_ok:
  assumes wf: "wf_store h self"
  shows "\<exists>r h'. normalize self h = (Inr r, h')
      \<and> extends h h' \<and> length h \<le> r \<and> is_obj (h' ! r) = IS_AOA self
      \<and> raw_tensors h' r = Some (map normalize_tensor (tensors h self))"
proof -
  let ?ts = "tensors h self"
  from wf_storeD [OF wf] have ts: "raw_tensors h (values self) = Some ?ts"
    and flag: "IS_AOA self = is_obj (h ! values self)" and w: "\<forall>t\<in>set ?ts. wf_tensor t"
    and v: "values self < length h" by auto
  from w have rank: "\<forall>t\<in>set ?ts. fst t \<noteq> []" by (auto simp: wf_tensor_def)
  show ?thesis
  proof (cases "h ! values self")
    case (NumArr sh dt)
    from raw_tensors_num [OF ts NumArr] have t1: "?ts = [(sh, dt)]" by simp
    with rank have sh: "sh \<noteq> []" by simp
    from flag NumArr have nf: "\<not> IS_AOA self" by simp
    let ?h' = "h @ [zeros sh, NumArr (fst (normalize_tensor (sh, dt))) (snd (normalize_tensor (sh, dt)))]"
    have "raw_tensors ?h' (Suc (length h)) = Some [normalize_tensor (sh, dt)]"
      by (simp add: raw_tensors_def nth_append)
    moreover have "extends h ?h'" by simp
    moreover have "is_obj (?h' ! Suc (length h)) = IS_AOA self" using nf by (simp add: nth_append)
    ultimately show ?thesis
      using normalize_dense [OF v NumArr sh nf] t1 by simp
  next
    case (ObjArr sl)
    from flag ObjArr have f: "IS_AOA self" by simp
    from normalize_ragged [OF ts ObjArr rank f refl] f show ?thesis by auto
  qed
qed

text \<open>
  C1, as the code has it. \<^verbatim>\<open>normalize\<close> on a well-formed store returns a new container
  of the same representation (a numeric array for a dense store, an object array of new
  numeric arrays for an array-of-arrays store) and changes no array that existed before.
  Tensor by tensor the shape is kept, no entry of the result is not-a-number, and the
  entry in row \<open>i\<close> and column \<open>j\<close> is the old entry divided by the sum of column \<open>j\<close>,
  except where that quotient is not-a-number: there it is \<open>1 / rows\<close>. So a column of
  finite entries whose sum is not 0 is divided by its sum and then sums to 1, and a
  column whose entries are all 0 becomes \<open>1 / rows\<close> throughout.
\<close>

theorem normalize_columns:
  assumes "wf_store h self"
  shows "\<exists>r h' res. normalize self h = (Inr r, h')
      \<and> extends h h' \<and> length h \<le> r \<and> is_obj (h' ! r) = IS_AOA self
      \<and> raw_tensors h' r = Some res \<and> length res = length (tensors h self)
      \<and> (\<forall>k<length res.
            fst (res ! k) = fst (tensors h self ! k)
          \<and> length (snd (res ! k)) = length (snd (tensors h self ! k))
          \<and> (\<forall>e\<in>set (snd (res ! k)). \<not> isnan e)
          \<and> (\<forall>i<rows (tensors h self ! k). \<forall>j<cols (tensors h self ! k).
                entry (res ! k) i j
                = (if isnan (fdiv (entry (tensors h self ! k) i j) (col_sum (tensors h self ! k) j))
                   then Fin (1 / real (rows (tensors h self ! k)))
                   else fdiv (entry (tensors h self ! k) i j) (col_sum (tensors h self ! k) j)))
          \<and> (\<forall>j<cols (tensors h self ! k). \<forall>x.
                (\<forall>i<rows (tensors h self ! k). entry (tensors h self ! k) i j = Fin (x i)) \<longrightarrow>
                (sum x {..<rows (tensors h self ! k)} \<noteq> 0 \<longrightarrow>
                   (\<forall>i<rows (tensors h self ! k).
                      entry (res ! k) i j = Fin (x i / sum x {..<rows (tensors h self ! k)}))
                   \<and> col_sum (res ! k) j = Fin 1)
                \<and> ((\<forall>i<rows (tensors h self ! k). x i = 0) \<longrightarrow>
                   (\<forall>i<rows (tensors h self ! k).
                      entry (res ! k) i j = Fin (1 / real (rows (tensors h self ! k)))))))"
proof -
  let ?ts = "tensors h self"
  from normalize_ok [OF assms] obtain r h' where
    run: "normalize self h = (Inr r, h')" "extends h h'" "length h \<le> r"
      "is_obj (h' ! r) = IS_AOA self"
    and res: "raw_tensors h' r = Some (map normalize_tensor ?ts)" by blast
  have per: "fst (map normalize_tensor ?ts ! k) = fst (?ts ! k)
          \<and> length (snd (map normalize_tensor ?ts ! k)) = length (snd (?ts ! k))
          \<and> (\<forall>e\<in>set (snd (map normalize_tensor ?ts ! k)). \<not> isnan e)
          \<and> (\<forall>i<rows (?ts ! k). \<forall>j<cols (?ts ! k).
                entry (map normalize_tensor ?ts ! k) i j
                = (if isnan (fdiv (entry (?ts ! k) i j) (col_sum (?ts ! k) j))
                   then Fin (1 / real (rows (?ts ! k)))
                   else fdiv (entry (?ts ! k) i j) (col_sum (?ts ! k) j)))
          \<and> (\<forall>j<cols (?ts ! k). \<forall>x.
                (\<forall>i<rows (?ts ! k). entry (?ts ! k) i j = Fin (x i)) \<longrightarrow>
                (sum x {..<rows (?ts ! k)} \<noteq> 0 \<longrightarrow>
                   (\<forall>i<rows (?ts ! k).
                      entry (map normalize_tensor ?ts ! k) i j = Fin (x i / sum x {..<rows (?ts ! k)}))
                   \<and> col_sum (map normalize_tensor ?ts ! k) j = Fin 1)
                \<and> ((\<forall>i<rows (?ts ! k). x i = 0) \<longrightarrow>
                   (\<forall>i<rows (?ts ! k).
                      entry (map normalize_tensor ?ts ! k) i j = Fin (1 / real (rows (?ts ! k))))))"
    if k: "k < length (map normalize_tensor ?ts)" for k
  proof -
    let ?t = "?ts ! k"
    from k have k': "k < length ?ts" by simp
    then have nk: "map normalize_tensor ?ts ! k = normalize_tensor ?t" by simp
    from wf_storeD [OF assms] k' have w: "wf_tensor ?t" by simp
    then have s: "fst ?t \<noteq> []" and l: "length (snd ?t) = prod_list (fst ?t)"
      by (auto simp: wf_tensor_def)
    have 1: "fst (normalize_tensor ?t) = fst ?t" using s by (rule normalize_tensor_shape)
    have 2: "length (snd (normalize_tensor ?t)) = length (snd ?t)"
      using normalize_tensor_length [OF s] l by simp
    have 3: "\<forall>e\<in>set (snd (normalize_tensor ?t)). \<not> isnan e"
      using s by (rule normalize_tensor_no_nan)
    have 4: "\<forall>i<rows ?t. \<forall>j<cols ?t. entry (normalize_tensor ?t) i j
                = (if isnan (fdiv (entry ?t i j) (col_sum ?t j))
                   then Fin (1 / real (rows ?t))
                   else fdiv (entry ?t i j) (col_sum ?t j))"
      using normalize_tensor_entry [OF s] by blast
    have 5: "\<forall>j<cols ?t. \<forall>x.
                (\<forall>i<rows ?t. entry ?t i j = Fin (x i)) \<longrightarrow>
                (sum x {..<rows ?t} \<noteq> 0 \<longrightarrow>
                   (\<forall>i<rows ?t. entry (normalize_tensor ?t) i j = Fin (x i / sum x {..<rows ?t}))
                   \<and> col_sum (normalize_tensor ?t) j = Fin 1)
                \<and> ((\<forall>i<rows ?t. x i = 0) \<longrightarrow>
                   (\<forall>i<rows ?t. entry (normalize_tensor ?t) i j = Fin (1 / real (rows ?t))))"
    proof (intro allI impI conjI)
      fix j x i assume j: "j < cols ?t" and fin: "\<forall>i<rows ?t. entry ?t i j = Fin (x i)"
        and nz: "sum x {..<rows ?t} \<noteq> 0" and i: "i < rows ?t"
      from normalize_tensor_finite [OF s j fin nz] i
      show "entry (normalize_tensor ?t) i j = Fin (x i / sum x {..<rows ?t})" by simp
    next
      fix j x assume j: "j < cols ?t" and fin: "\<forall>i<rows ?t. entry ?t i j = Fin (x i)"
        and nz: "sum x {..<rows ?t} \<noteq> 0"
      from normalize_tensor_finite [OF s j fin nz]
      show "col_sum (normalize_tensor ?t) j = Fin 1" by simp
    next
      fix j x i assume j: "j < cols ?t" and fin: "\<forall>i<rows ?t. entry ?t i j = Fin (x i)"
        and z: "\<forall>i<rows ?t. x i = 0" and i: "i < rows ?t"
      from fin z have "\<forall>i<rows ?t. entry ?t i j = Fin 0" by simp
      from normalize_tensor_zero_column [OF s j this] i
      show "entry (normalize_tensor ?t) i j = Fin (1 / real (rows ?t))" by simp
    qed
    from 1 2 3 4 5 show ?thesis unfolding nk by blast
  qed
  have len: "length (map normalize_tensor ?ts) = length ?ts" by simp
  from run res len per show ?thesis by blast
qed

theorem normalize_columns_witness:
  "wf_store [NumArr [2, 2] [Fin 0, Fin 2, Fin 4, Fin 0], NumArr [2, 1] [Fin 0, Fin 0],
             ObjArr [Some 0, Some 1]] \<lparr>IS_AOA = True, values = 2\<rparr>
   \<and> (\<exists>r h' res. normalize \<lparr>IS_AOA = True, values = 2\<rparr>
          [NumArr [2, 2] [Fin 0, Fin 2, Fin 4, Fin 0], NumArr [2, 1] [Fin 0, Fin 0],
           ObjArr [Some 0, Some 1]] = (Inr r, h')
        \<and> h' ! 0 = NumArr [2, 2] [Fin 0, Fin 2, Fin 4, Fin 0]
        \<and> raw_tensors h' r = Some res \<and> length res = 2
        \<and> fst (res ! 0) = [2, 2]
        \<and> entry (res ! 0) 0 0 = Fin 0 \<and> entry (res ! 0) 0 1 = Fin 1
        \<and> entry (res ! 0) 1 0 = Fin 1 \<and> entry (res ! 0) 1 1 = Fin 0
        \<and> entry (res ! 1) 0 0 = Fin (1 / 2) \<and> entry (res ! 1) 1 0 = Fin (1 / 2))"
proof -
  let ?h = "[NumArr [2, 2] [Fin 0, Fin 2, Fin 4, Fin 0], NumArr [2, 1] [Fin 0, Fin 0],
             ObjArr [Some 0, Some 1]]"
  let ?s = "\<lparr>IS_AOA = True, values = 2\<rparr>"
  have wf: "wf_store ?h ?s"
    by (simp add: wf_store_def raw_tensors_def num_at_def wf_tensor_def)
  have ts: "tensors ?h ?s = [([2, 2], [Fin 0, Fin 2, Fin 4, Fin 0]), ([2, 1], [Fin 0, Fin 0])]"
    by (simp add: tensors_def raw_tensors_def num_at_def)
  from normalize_columns [OF wf] obtain r h' res where
    run: "normalize ?s ?h = (Inr r, h')" and ext: "extends ?h h'"
    and res: "raw_tensors h' r = Some res" "length res = length (tensors ?h ?s)"
    and per: "\<forall>k<length res.
            fst (res ! k) = fst (tensors ?h ?s ! k)
          \<and> length (snd (res ! k)) = length (snd (tensors ?h ?s ! k))
          \<and> (\<forall>e\<in>set (snd (res ! k)). \<not> isnan e)
          \<and> (\<forall>i<rows (tensors ?h ?s ! k). \<forall>j<cols (tensors ?h ?s ! k).
                entry (res ! k) i j
                = (if isnan (fdiv (entry (tensors ?h ?s ! k) i j) (col_sum (tensors ?h ?s ! k) j))
                   then Fin (1 / real (rows (tensors ?h ?s ! k)))
                   else fdiv (entry (tensors ?h ?s ! k) i j) (col_sum (tensors ?h ?s ! k) j)))
          \<and> (\<forall>j<cols (tensors ?h ?s ! k). \<forall>x.
                (\<forall>i<rows (tensors ?h ?s ! k). entry (tensors ?h ?s ! k) i j = Fin (x i)) \<longrightarrow>
                (sum x {..<rows (tensors ?h ?s ! k)} \<noteq> 0 \<longrightarrow>
                   (\<forall>i<rows (tensors ?h ?s ! k).
                      entry (res ! k) i j = Fin (x i / sum x {..<rows (tensors ?h ?s ! k)}))
                   \<and> col_sum (res ! k) j = Fin 1)
                \<and> ((\<forall>i<rows (tensors ?h ?s ! k). x i = 0) \<longrightarrow>
                   (\<forall>i<rows (tensors ?h ?s ! k).
                      entry (res ! k) i j = Fin (1 / real (rows (tensors ?h ?s ! k))))))"
    by (elim exE conjE) (rule that)
  from res(2) ts have l2: "length res = 2" by simp
  have e0: "entry (res ! 0) i j
      = (if isnan (fdiv (entry ([2, 2], [Fin 0, Fin 2, Fin 4, Fin 0]) i j)
                        (col_sum ([2, 2], [Fin 0, Fin 2, Fin 4, Fin 0]) j))
         then Fin (1 / 2)
         else fdiv (entry ([2, 2], [Fin 0, Fin 2, Fin 4, Fin 0]) i j)
                   (col_sum ([2, 2], [Fin 0, Fin 2, Fin 4, Fin 0]) j))"
    if "i < 2" "j < 2" for i j
    using per [rule_format, of 0, THEN conjunct2, THEN conjunct2, THEN conjunct2, THEN conjunct1,
        rule_format, of i j] l2 that
    unfolding ts by (simp add: rows_def cols_def)
  have e1: "entry (res ! 1) i 0
      = (if isnan (fdiv (entry ([2, 1], [Fin 0, Fin 0]) i 0) (col_sum ([2, 1], [Fin 0, Fin 0]) 0))
         then Fin (1 / 2)
         else fdiv (entry ([2, 1], [Fin 0, Fin 0]) i 0) (col_sum ([2, 1], [Fin 0, Fin 0]) 0))"
    if "i < 2" for i
    using per [rule_format, of 1, THEN conjunct2, THEN conjunct2, THEN conjunct2, THEN conjunct1,
        rule_format, of i 0] l2 that
    unfolding ts by (simp add: rows_def cols_def)
  have s0: "fst (res ! 0) = [2, 2]"
    using per [rule_format, of 0, THEN conjunct1] l2 unfolding ts by simp
  have c0: "col_sum ([2, 2], [Fin 0, Fin 2, Fin 4, Fin 0]) 0 = Fin 4"
    "col_sum ([2, 2], [Fin 0, Fin 2, Fin 4, Fin 0]) 1 = Fin 2"
    "col_sum ([2, 1], [Fin 0, Fin 0]) 0 = Fin 0"
    by (simp_all add: col_sum_def entry_def rows_def cols_def upt_conv_Cons)
  have en: "entry ([2, 2], [Fin 0, Fin 2, Fin 4, Fin 0]) 0 0 = Fin 0"
    "entry ([2, 2], [Fin 0, Fin 2, Fin 4, Fin 0]) 0 1 = Fin 2"
    "entry ([2, 2], [Fin 0, Fin 2, Fin 4, Fin 0]) 1 0 = Fin 4"
    "entry ([2, 2], [Fin 0, Fin 2, Fin 4, Fin 0]) 1 1 = Fin 0"
    "entry ([2, 1], [Fin 0, Fin 0]) 0 0 = Fin 0"
    "entry ([2, 1], [Fin 0, Fin 0]) 1 0 = Fin 0"
    by (simp_all add: entry_def cols_def)
  have v: "entry (res ! 0) 0 0 = Fin 0" "entry (res ! 0) 0 1 = Fin 1"
    "entry (res ! 0) 1 0 = Fin 1" "entry (res ! 0) 1 1 = Fin 0"
    "entry (res ! 1) 0 0 = Fin (1 / 2)" "entry (res ! 1) 1 0 = Fin (1 / 2)"
    using e0 [of 0 0] e0 [of 0 1] e0 [of 1 0] e0 [of 1 1] e1 [of 0] e1 [of 1]
    unfolding c0 en by simp_all
  from extendsD [OF ext] have "h' ! 0 = ?h ! 0" by simp
  with wf run res(1) l2 s0 v show ?thesis by auto
qed

theorem normalize_zero_sum_counterexample:
  "col_sum ([2, 1], [Fin 1, Fin (- 1)]) 0 = Fin 0
   \<and> normalize \<lparr>IS_AOA = False, values = 0\<rparr> [NumArr [2, 1] [Fin 1, Fin (- 1)]]
     = (Inr 2, [NumArr [2, 1] [Fin 1, Fin (- 1)], NumArr [2, 1] [Fin 0, Fin 0],
                NumArr [2, 1] [PInf, NInf]])"
  by (simp add: col_sum_def entry_def rows_def cols_def upt_conv_Cons
      normalize_def normalize_array_def bnd_def load_def alloc_def store_def ret_def
      np_binop_new_def broadcast_shapes_def bidx_def nan_to_def inf_of_sign_def
      numeral_2_eq_2)

subsection \<open>wnorm\<close>

lemma np_sum_axis0_length:
  "fst t = n # rest \<Longrightarrow> length (snd (np_sum_axis0 t)) = prod_list rest"
  by (cases t) auto

lemma wnorm_parts:
  assumes sh: "fst A = n # rest" and len: "length (snd A) = prod_list (fst A)"
  shows "np_binop fdiv (scalar (Fin 1)) (np_sum_axis0 A)
           = Some (rest, map (fdiv (Fin 1)) (snd (np_sum_axis0 A)))"
    and "np_binop fdiv (scalar (Fin 1)) A = Some (n # rest, map (fdiv (Fin 1)) (snd A))"
    and "np_binop fsub (rest, map (fdiv (Fin 1)) (snd (np_sum_axis0 A)))
                       (n # rest, map (fdiv (Fin 1)) (snd A))
           = Some (n # rest,
                   map (\<lambda>k. fsub (map (fdiv (Fin 1)) (snd (np_sum_axis0 A)) ! (k mod prod_list rest))
                                  (map (fdiv (Fin 1)) (snd A) ! k))
                       [0..<n * prod_list rest])"
proof -
  obtain c where c: "np_sum_axis0 A = (rest, c)"
    using np_sum_axis0_shape [OF sh] by (cases "np_sum_axis0 A") auto
  with np_sum_axis0_length [OF sh] have lc: "length c = prod_list rest" by simp
  show "np_binop fdiv (scalar (Fin 1)) (np_sum_axis0 A)
           = Some (rest, map (fdiv (Fin 1)) (snd (np_sum_axis0 A)))"
    unfolding c snd_conv using lc by (rule np_binop_scalar_l)
  obtain d where A: "A = (n # rest, d)" using sh by (cases A) auto
  with len have ld: "length d = prod_list (n # rest)" by simp
  show "np_binop fdiv (scalar (Fin 1)) A = Some (n # rest, map (fdiv (Fin 1)) (snd A))"
    unfolding A snd_conv using ld by (rule np_binop_scalar_l)
  show "np_binop fsub (rest, map (fdiv (Fin 1)) (snd (np_sum_axis0 A)))
                       (n # rest, map (fdiv (Fin 1)) (snd A))
           = Some (n # rest,
                   map (\<lambda>k. fsub (map (fdiv (Fin 1)) (snd (np_sum_axis0 A)) ! (k mod prod_list rest))
                                  (map (fdiv (Fin 1)) (snd A) ! k))
                       [0..<n * prod_list rest])"
    by (rule np_binop_axis0_l)
qed

lemma floor_tensor_simps [simp]:
  "fst (floor_tensor t) = fst t" "length (snd (floor_tensor t)) = length (snd t)"
  by (simp_all add: floor_tensor_def)

lemma wnorm_tensor_eq:
  assumes sh: "fst t = n # rest" and len: "length (snd t) = prod_list (fst t)"
  shows "wnorm_tensor t
     = (n # rest,
        map (\<lambda>k. fsub (map (fdiv (Fin 1)) (snd (np_sum_axis0 (floor_tensor t))) ! (k mod prod_list rest))
                       (map (fdiv (Fin 1)) (snd (floor_tensor t)) ! k))
            [0..<n * prod_list rest])"
proof -
  have s: "fst (floor_tensor t) = n # rest" using sh by simp
  have l: "length (snd (floor_tensor t)) = prod_list (fst (floor_tensor t))" using len by simp
  note p = wnorm_parts [OF s l]
  show ?thesis unfolding wnorm_tensor_def p(1) p(2) option.case p(3) ..
qed

lemma wnorm_tensor_entry:
  assumes s: "fst t \<noteq> []" and len: "length (snd t) = prod_list (fst t)"
    and i: "i < rows t" and j: "j < cols t"
  shows "entry (wnorm_tensor t) i j
     = fsub (fdiv (Fin 1) (col_sum (floor_tensor t) j)) (fdiv (Fin 1) (entry (floor_tensor t) i j))"
proof -
  from s obtain n rest where sh: "fst t = n # rest" by (cases "fst t") auto
  let ?m = "prod_list rest" and ?A = "floor_tensor t"
  from i j sh have i': "i < n" and j': "j < ?m" by (simp_all add: rows_def cols_def)
  have k: "i * ?m + j < n * ?m" using i' j' by (rule flat_index_less)
  have jm: "j mod ?m = j" using j' by simp
  have sA: "fst ?A = n # rest" using sh by simp
  have cs: "snd (np_sum_axis0 ?A) ! j = col_sum ?A j" using sA j' by (rule np_sum_axis0_nth)
  have lc: "length (snd (np_sum_axis0 ?A)) = ?m" using sA by (rule np_sum_axis0_length)
  have lA: "length (snd ?A) = n * ?m" using len sh by simp
  have cA: "cols ?A = ?m" using sh by (simp add: cols_def)
  have cw: "cols (wnorm_tensor t) = ?m"
    unfolding wnorm_tensor_eq [OF sh len] by (simp add: cols_def)
  have "entry (wnorm_tensor t) i j = snd (wnorm_tensor t) ! (i * ?m + j)"
    by (simp add: entry_def cw)
  also have "\<dots> = fsub (fdiv (Fin 1) (snd (np_sum_axis0 ?A) ! j)) (fdiv (Fin 1) (snd ?A ! (i * ?m + j)))"
    unfolding wnorm_tensor_eq [OF sh len] using k jm j' lc lA
    by (simp del: fdiv.simps)
  also have "\<dots> = fsub (fdiv (Fin 1) (col_sum ?A j)) (fdiv (Fin 1) (entry ?A i j))"
    unfolding cs by (simp add: entry_def cA)
  finally show ?thesis .
qed

lemma wnorm_tensor_shape:
  "fst t \<noteq> [] \<Longrightarrow> length (snd t) = prod_list (fst t) \<Longrightarrow> fst (wnorm_tensor t) = fst t"
proof -
  assume s: "fst t \<noteq> []" and len: "length (snd t) = prod_list (fst t)"
  from s obtain n rest where sh: "fst t = n # rest" by (cases "fst t") auto
  show ?thesis unfolding wnorm_tensor_eq [OF sh len] using sh by simp
qed

lemma wnorm_tensor_length:
  "fst t \<noteq> [] \<Longrightarrow> length (snd t) = prod_list (fst t)
   \<Longrightarrow> length (snd (wnorm_tensor t)) = length (snd t)"
proof -
  assume s: "fst t \<noteq> []" and len: "length (snd t) = prod_list (fst t)"
  from s obtain n rest where sh: "fst t = n # rest" by (cases "fst t") auto
  show ?thesis unfolding wnorm_tensor_eq [OF sh len] using sh len by simp
qed

lemma floor_tensor_entry:
  assumes "fst t \<noteq> []" "length (snd t) = prod_list (fst t)" "i < rows t" "j < cols t"
  shows "entry (floor_tensor t) i j = fadd (entry t i j) exp_m16"
proof -
  from assms(1) obtain n rest where sh: "fst t = n # rest" by (cases "fst t") auto
  from assms(3,4) sh have "i * prod_list rest + j < n * prod_list rest"
    by (intro flat_index_less) (simp_all add: rows_def cols_def)
  with assms(2) sh show ?thesis
    by (simp add: entry_def cols_def floor_tensor_def)
qed

lemma floor_tensor_pair: "floor_tensor (sh, dt) = (sh, add_floor dt)"
  by (simp add: floor_tensor_def add_floor_def)

lemma wnorm_array_ok:
  assumes a: "a < length h" and arr: "h ! a = NumArr sh dt" and wf: "wf_tensor (sh, dt)"
  shows "wnorm_array a h
     = (Inr (Suc (length h)),
        h @ [NumArr sh (add_floor dt),
             NumArr (fst (wnorm_tensor (sh, dt))) (snd (wnorm_tensor (sh, dt)))])"
proof -
  from wf have rk: "length sh \<noteq> 1" and ne: "sh \<noteq> []" and len: "length dt = prod_list sh"
    by (auto simp: wf_tensor_def)
  from ne obtain n rest where sh: "sh = n # rest" by (cases sh) auto
  let ?A = "(sh, add_floor dt)"
  let ?h1 = "h @ [NumArr sh dt]" and ?h2 = "h @ [NumArr sh (add_floor dt)]"
  let ?d = "\<lparr>IS_AOA = False, values = length h\<rparr>"
  have sA: "fst ?A = n # rest" using sh by simp
  have lA: "length (snd ?A) = prod_list (fst ?A)" using len by (simp add: add_floor_def)
  note p = wnorm_parts [OF sA lA]
  have st: "fst (sh, dt) = n # rest" "length (snd (sh, dt)) = prod_list (fst (sh, dt))"
    using sh len by simp_all
  have w: "np_binop fsub (rest, map (fdiv (Fin 1)) (snd (np_sum_axis0 ?A)))
                       (n # rest, map (fdiv (Fin 1)) (snd ?A)) = Some (wnorm_tensor (sh, dt))"
    unfolding wnorm_tensor_eq [OF st] floor_tensor_pair by (rule p(3))
  have wne: "fst (wnorm_tensor (sh, dt)) \<noteq> []"
    using wnorm_tensor_shape [of "(sh, dt)"] ne len by simp
  have cv: "construct_values (PyArray a) h = (Inr ?d, ?h1)"
    using a arr rk by (rule construct_values_num)
  have rz: "remove_zeros ?d ?h1 = (Inr (), ?h2)"
    using remove_zeros_dense [of "length h" ?h1 sh dt False] by simp
  have ld: "load (length h) ?h2 = (Inr (NumArr sh (add_floor dt)), ?h2)"
    by (simp add: load_def)
  have nw: "np_binop_new fsub (rest, map (fdiv (Fin 1)) (snd (np_sum_axis0 ?A)))
                       (n # rest, map (fdiv (Fin 1)) (add_floor dt)) ?h2
      = (Inr (Suc (length h)),
         h @ [NumArr sh (add_floor dt),
              NumArr (fst (wnorm_tensor (sh, dt))) (snd (wnorm_tensor (sh, dt)))])"
    using np_binop_new_ok [OF w wne, of ?h2] by simp
  show ?thesis
    unfolding wnorm_array_def
    by (simp add: bnd_def cv rz ld ne p(1) p(2) nw del: np_binop.simps fdiv.simps)
qed

lemma py_index_nat: "i < n \<Longrightarrow> py_index n (int i) = Some i"
  by (simp add: py_index_def)

lemma getitem_slot:
  assumes "v < length h" "h ! v = ObjArr sl" "i < length sl" "sl ! i = Some e" "e < length h"
    "h ! e = NumArr sh dt" "length sh \<noteq> 1" "values self = v"
  shows "getitem self (PyInt (int i)) h
     = (Inr (PyDirichlet \<lparr>IS_AOA = False, values = length h\<rparr>), h @ [NumArr sh dt])"
proof -
  have ix: "index_array v (PyInt (int i)) h = (Inr (PyArray e), h)"
    using assms(1,2,4) py_index_nat [OF assms(3)]
    by (simp add: index_array_def bnd_def load_def ret_def)
  have ld: "load e h = (Inr (NumArr sh dt), h)" using load_ok [OF assms(5)] assms(6) by simp
  have cv: "construct_values (PyArray e) h
      = (Inr \<lparr>IS_AOA = False, values = length h\<rparr>, h @ [NumArr sh dt])"
    using assms(5,6,7) by (rule construct_values_num)
  show ?thesis
    using assms(7) by (simp add: getitem_def assms(8) bnd_def ix ld cv ret_def)
qed

lemma wnorm_step_ok:
  assumes "v < length h" "h ! v = ObjArr sl" "i < length sl" "sl ! i = Some e" "e < length h"
    "h ! e = NumArr sh dt" "wf_tensor (sh, dt)" "values self = v"
    "r < length h" "h ! r = ObjArr sl2" "i < length sl2"
  shows "wnorm_step self r i h
     = (Inr (), (h @ [NumArr sh dt, NumArr sh (add_floor dt)]
                   @ [NumArr (fst (wnorm_tensor (sh, dt))) (snd (wnorm_tensor (sh, dt)))])
                [r := ObjArr (sl2[i := Some (length h + 2)])])"
proof -
  let ?h1 = "h @ [NumArr sh dt]"
  let ?w = "NumArr (fst (wnorm_tensor (sh, dt))) (snd (wnorm_tensor (sh, dt)))"
  let ?h3 = "?h1 @ [NumArr sh (add_floor dt), ?w]"
  from assms(7) have rk: "length sh \<noteq> 1" by (simp add: wf_tensor_def)
  have g: "getitem self (PyInt (int i)) h
     = (Inr (PyDirichlet \<lparr>IS_AOA = False, values = length h\<rparr>), ?h1)"
    using assms(1,2,3,4,5,6) rk assms(8) by (rule getitem_slot)
  have wa: "wnorm_array (length h) ?h1 = (Inr (Suc (length ?h1)), ?h3)"
    using assms(7) by (intro wnorm_array_ok) simp_all
  let ?h4 = "h @ [NumArr sh dt, NumArr sh (add_floor dt), ?w]"
  have s: "set_slot r i (Some (Suc (Suc (length h)))) ?h4
      = (Inr (), ?h4[r := ObjArr (sl2[i := Some (Suc (Suc (length h)))])])"
    using assms(9,10,11) by (intro set_slot_ok) (simp_all add: nth_append)
  show ?thesis by (simp add: wnorm_step_def bnd_def g wa s)
qed

lemma wrap_ok:
  assumes ts: "raw_tensors h r = Some ts" and rank: "\<forall>t\<in>set ts. length (fst t) \<noteq> 1"
  shows "\<exists>res h' r'. wrap return_numpy r h = (Inr res, h') \<and> extends h h'
      \<and> res = (if return_numpy then PyArray r'
                else PyDirichlet \<lparr>IS_AOA = is_obj (h ! r), values = r'\<rparr>)
      \<and> r \<le> r' \<and> is_obj (h' ! r') = is_obj (h ! r) \<and> raw_tensors h' r' = Some ts"
proof (cases return_numpy)
  case True
  with ts show ?thesis by (simp add: wrap_def ret_def)
next
  case False
  from ts have r: "r < length h" by (auto simp: raw_tensors_def split: if_splits)
  from construct_values_fresh [OF ts rank] obtain d h' where
    cv: "construct_values (PyArray r) h = (Inr d, h')" and d: "values d = length h"
      "IS_AOA d = is_obj (h ! r)" and e: "extends h h'"
    and rt: "raw_tensors h' (values d) = Some ts" by blast
  have k: "is_obj (h' ! values d) = is_obj (h ! r)"
  proof (cases "h ! r")
    case (NumArr sh dt)
    from raw_tensors_num [OF ts NumArr] have "ts = [(sh, dt)]" by simp
    with rank have "length sh \<noteq> 1" by simp
    from construct_values_num [OF r NumArr this] cv have "h' = h @ [NumArr sh dt]" by simp
    with d(1) NumArr show ?thesis by simp
  next
    case (ObjArr sl)
    from construct_values_obj [OF ts ObjArr rank] cv d(1) ObjArr show ?thesis by auto
  qed
  have dd: "d = \<lparr>IS_AOA = is_obj (h ! r), values = length h\<rparr>" using d by (cases d) simp
  from False cv e rt k r d(1) show ?thesis
    by (simp add: wrap_def bnd_def ret_def dd)
qed

lemma wnorm_tensor_rank:
  assumes "wf_tensor t"
  shows "length (fst (wnorm_tensor t)) \<noteq> 1"
proof -
  from assms have r: "2 \<le> length (fst t)" and l: "length (snd t) = prod_list (fst t)"
    by (simp_all add: wf_tensor_def)
  from r have "fst t \<noteq> []" by auto
  from wnorm_tensor_shape [OF this l] r show ?thesis by simp
qed

lemma wnorm_raw:
  assumes wf: "wf_store h self"
  shows "\<exists>r h'. (if IS_AOA self
                 then bnd (load (values self)) (\<lambda>sv. case sv of
                        ObjArr sl \<Rightarrow>
                          bnd (alloc (ObjArr (replicate (length sl) None))) (\<lambda>wA.
                          bnd (for_range (length sl) (wnorm_step self wA)) (\<lambda>_. ret wA))
                      | NumArr sh dt \<Rightarrow> raise Unmodelled)
                 else wnorm_array (values self)) h = (Inr r, h')
      \<and> extends h h' \<and> length h \<le> r \<and> is_obj (h' ! r) = IS_AOA self
      \<and> raw_tensors h' r = Some (map wnorm_tensor (tensors h self))"
proof -
  let ?ts = "tensors h self"
  from wf_storeD [OF wf] have ts: "raw_tensors h (values self) = Some ?ts"
    and flag: "IS_AOA self = is_obj (h ! values self)" and w: "\<forall>t\<in>set ?ts. wf_tensor t"
    and v: "values self < length h" by auto
  show ?thesis
  proof (cases "h ! values self")
    case (NumArr sh dt)
    from raw_tensors_num [OF ts NumArr] have t1: "?ts = [(sh, dt)]" by simp
    with w have wt: "wf_tensor (sh, dt)" by simp
    from flag NumArr have nf: "\<not> IS_AOA self" by simp
    let ?w = "wnorm_tensor (sh, dt)"
    let ?h' = "h @ [NumArr sh (add_floor dt), NumArr (fst ?w) (snd ?w)]"
    have "raw_tensors ?h' (Suc (length h)) = Some [?w]"
      by (simp add: raw_tensors_def nth_append)
    moreover have "extends h ?h'" by simp
    moreover have "is_obj (?h' ! Suc (length h)) = IS_AOA self" using nf by (simp add: nth_append)
    ultimately show ?thesis
      using wnorm_array_ok [OF v NumArr wt] t1 nf by simp
  next
    case (ObjArr sl)
    from flag ObjArr have f: "IS_AOA self" by simp
    from raw_tensors_obj [OF ts ObjArr] have len: "length ?ts = length sl"
      and src: "\<forall>i<length sl. \<exists>a. sl ! i = Some a \<and> a < length h \<and> a \<noteq> values self
            \<and> h ! a = NumArr (fst (?ts ! i)) (snd (?ts ! i))" by auto
    let ?n = "length sl"
    let ?F = "\<lambda>k. wnorm_tensor (?ts ! k)"
    have "\<exists>h'. for_range ?n (wnorm_step self (length h)) (h @ [ObjArr (replicate ?n None)])
          = (Inr (), h')
        \<and> extends h h' \<and> length h < length h' \<and> is_obj (h' ! length h)
        \<and> raw_tensors h' (length h) = Some (map ?F [0..<?n])"
    proof (rule new_obj_loop)
      fix i h2 sl2
      assume i: "i < ?n" and l: "length h < length h2" and old: "\<forall>b<length h. h2 ! b = h ! b"
        and sl2: "h2 ! length h = ObjArr sl2" "length sl2 = ?n"
      from src i obtain a where a: "sl ! i = Some a" "a < length h"
        "h ! a = NumArr (fst (?ts ! i)) (snd (?ts ! i))" by blast
      from w i len have wt: "wf_tensor (fst (?ts ! i), snd (?ts ! i))" by simp
      have "wnorm_step self (length h) i h2
        = (Inr (), (h2 @ [NumArr (fst (?ts ! i)) (snd (?ts ! i)),
                          NumArr (fst (?ts ! i)) (add_floor (snd (?ts ! i)))]
                       @ [NumArr (fst (wnorm_tensor (fst (?ts ! i), snd (?ts ! i))))
                                 (snd (wnorm_tensor (fst (?ts ! i), snd (?ts ! i))))])
              [length h := ObjArr (sl2[i := Some (length h2 + 2)])])"
        using v l ObjArr i a old wt sl2
        by (intro wnorm_step_ok [where sl = sl and e = a and v = "values self"]) simp_all
      then show "\<exists>ys. wnorm_step self (length h) i h2
         = (Inr (), (h2 @ ys @ [NumArr (fst (?F i)) (snd (?F i))])
              [length h := ObjArr (sl2[i := Some (length h2 + length ys)])])"
        by (intro exI [of _ "[NumArr (fst (?ts ! i)) (snd (?ts ! i)),
                          NumArr (fst (?ts ! i)) (add_floor (snd (?ts ! i)))]"]) simp
    qed
    then obtain h' where loop: "for_range ?n (wnorm_step self (length h))
           (h @ [ObjArr (replicate ?n None)]) = (Inr (), h')"
      and rest: "extends h h'" "length h < length h'" "is_obj (h' ! length h)"
        "raw_tensors h' (length h) = Some (map ?F [0..<?n])" by blast
    have "map ?F [0..<?n] = map wnorm_tensor ?ts"
      using len by (intro map_upt_nth_list) simp
    with rest f v ObjArr loop show ?thesis
      by (simp add: bnd_def load_def alloc_def ret_def)
  qed
qed

lemma wnorm_ok:
  assumes wf: "wf_store h self"
  shows "\<exists>res h' r. wnorm self return_numpy h = (Inr res, h') \<and> extends h h'
      \<and> res = (if return_numpy then PyArray r
                else PyDirichlet \<lparr>IS_AOA = IS_AOA self, values = r\<rparr>)
      \<and> length h \<le> r \<and> is_obj (h' ! r) = IS_AOA self
      \<and> raw_tensors h' r = Some (map wnorm_tensor (tensors h self))"
proof -
  let ?ws = "map wnorm_tensor (tensors h self)"
  from wnorm_raw [OF wf] obtain r1 h1 where
    raw: "(if IS_AOA self
                 then bnd (load (values self)) (\<lambda>sv. case sv of
                        ObjArr sl \<Rightarrow>
                          bnd (alloc (ObjArr (replicate (length sl) None))) (\<lambda>wA.
                          bnd (for_range (length sl) (wnorm_step self wA)) (\<lambda>_. ret wA))
                      | NumArr sh dt \<Rightarrow> raise Unmodelled)
                 else wnorm_array (values self)) h = (Inr r1, h1)"
    and e1: "extends h h1" and l1: "length h \<le> r1" and k1: "is_obj (h1 ! r1) = IS_AOA self"
    and t1: "raw_tensors h1 r1 = Some ?ws" by blast
  have rank: "\<forall>t\<in>set ?ws. length (fst t) \<noteq> 1"
    using wf_storeD [OF wf] wnorm_tensor_rank by auto
  from wrap_ok [OF t1 rank, of return_numpy] obtain res h' r where
    wr: "wrap return_numpy r1 h1 = (Inr res, h')" and e2: "extends h1 h'"
    and res: "res = (if return_numpy then PyArray r
                else PyDirichlet \<lparr>IS_AOA = is_obj (h1 ! r1), values = r\<rparr>)"
    and r: "r1 \<le> r" "is_obj (h' ! r) = is_obj (h1 ! r1)" "raw_tensors h' r = Some ?ws"
    by blast
  have run: "wnorm self return_numpy h = (Inr res, h')"
  proof (cases "IS_AOA self")
    case True
    from wf_storeD [OF wf] True obtain sl where sl: "h ! values self = ObjArr sl"
      and v: "values self < length h" by (cases "h ! values self") auto
    from raw True v sl obtain hm where
      lp: "for_range (length sl) (wnorm_step self (length h)) (h @ [ObjArr (replicate (length sl) None)])
          = (Inr (), hm)" and eq: "r1 = length h" "h1 = hm"
      by (auto simp: bnd_def load_def alloc_def ret_def split: prod.splits sum.splits)
    from True v sl lp eq wr show ?thesis
      by (simp add: wnorm_def bnd_def load_def alloc_def)
  next
    case False
    with raw wr show ?thesis by (simp add: wnorm_def bnd_def)
  qed
  from run extends_trans [OF e1 e2] res r l1 k1 show ?thesis by auto
qed

lemma wnorm_tensor_real:
  assumes s: "fst t \<noteq> []" and len: "length (snd t) = prod_list (fst t)" and j: "j < cols t"
    and fin: "\<forall>i<rows t. entry t i j = Fin (x i) \<and> 0 \<le> x i"
  shows "\<forall>i<rows t. entry (wnorm_tensor t) i j
           = Fin (1 / (\<Sum>i'<rows t. x i' + exp (- 16)) - 1 / (x i + exp (- 16)))"
proof (intro allI impI)
  fix i assume i: "i < rows t"
  let ?A = "floor_tensor t" and ?c = "exp (- 16) :: real"
  have rA: "rows ?A = rows t" by (simp add: rows_def)
  have eA: "entry ?A i' j = Fin (x i' + ?c)" if "i' < rows t" for i'
    using floor_tensor_entry [OF s len that j] fin that by (simp add: exp_m16_def)
  then have "\<forall>i'<rows ?A. entry ?A i' j = Fin (x i' + ?c)" using rA by simp
  from col_sum_finite [OF this] rA
  have cs: "col_sum ?A j = Fin (\<Sum>i'<rows t. x i' + ?c)" by simp
  have pos: "0 < x i' + ?c" if "i' < rows t" for i'
  proof -
    from fin that have "0 \<le> x i'" by simp
    moreover have "0 < ?c" by simp
    ultimately show ?thesis by (rule add_nonneg_pos)
  qed
  have "0 < (\<Sum>i'<rows t. x i' + ?c)"
  proof (rule sum_pos)
    show "finite {..<rows t}" by simp
    show "{..<rows t} \<noteq> {}" using i by auto
    show "\<And>i'. i' \<in> {..<rows t} \<Longrightarrow> 0 < x i' + ?c" using pos by simp
  qed
  then have nz: "(\<Sum>i'<rows t. x i' + ?c) \<noteq> 0" by simp
  from pos [OF i] have nz2: "x i + ?c \<noteq> 0" by simp
  show "entry (wnorm_tensor t) i j = Fin (1 / (\<Sum>i'<rows t. x i' + ?c) - 1 / (x i + ?c))"
    unfolding wnorm_tensor_entry [OF s len i j] cs eA [OF i] using nz nz2
    by (simp add: fsub_def)
qed

text \<open>
  C2. \<^verbatim>\<open>wnorm\<close> on a well-formed store changes no array that existed before: the floor of
  \<^verbatim>\<open>remove_zeros\<close> goes to a copy. It returns the address of a new container of the
  representation of the store when the flag is set, and a new Dirichlet object over it
  otherwise. Tensor by tensor the shape is kept, and with \<open>A\<close> the tensor plus
  \<^verbatim>\<open>np.exp(-16)\<close> in every entry, the entry of the result in row \<open>i\<close> and column \<open>j\<close>
  is \<open>1 / s\<close> minus \<open>1 / A[i, j]\<close> in float arithmetic, where \<open>s\<close> is the sum of column
  \<open>j\<close> of \<open>A\<close>. Where the entries of column \<open>j\<close> are finite and not negative this is
  the real number \<open>1 / s - 1 / A[i, j]\<close>.
\<close>

theorem wnorm_formula:
  assumes "wf_store h self"
  shows "\<exists>res h' r ws. wnorm self return_numpy h = (Inr res, h')
      \<and> extends h h'
      \<and> res = (if return_numpy then PyArray r
                else PyDirichlet \<lparr>IS_AOA = IS_AOA self, values = r\<rparr>)
      \<and> length h \<le> r \<and> is_obj (h' ! r) = IS_AOA self
      \<and> raw_tensors h' r = Some ws \<and> length ws = length (tensors h self)
      \<and> (\<forall>k<length ws.
            fst (ws ! k) = fst (tensors h self ! k)
          \<and> length (snd (ws ! k)) = length (snd (tensors h self ! k))
          \<and> (\<forall>i<rows (tensors h self ! k). \<forall>j<cols (tensors h self ! k).
                entry (floor_tensor (tensors h self ! k)) i j
                  = fadd (entry (tensors h self ! k) i j) exp_m16
              \<and> entry (ws ! k) i j
                  = fsub (fdiv (Fin 1) (col_sum (floor_tensor (tensors h self ! k)) j))
                         (fdiv (Fin 1) (entry (floor_tensor (tensors h self ! k)) i j)))
          \<and> (\<forall>j<cols (tensors h self ! k). \<forall>x.
                (\<forall>i<rows (tensors h self ! k).
                    entry (tensors h self ! k) i j = Fin (x i) \<and> 0 \<le> x i) \<longrightarrow>
                (\<forall>i<rows (tensors h self ! k).
                    entry (ws ! k) i j
                    = Fin (1 / (\<Sum>i'<rows (tensors h self ! k). x i' + exp (- 16))
                           - 1 / (x i + exp (- 16))))))"
proof -
  let ?ts = "tensors h self"
  from wnorm_ok [OF assms, of return_numpy] obtain res h' r where
    run: "wnorm self return_numpy h = (Inr res, h')" "extends h h'"
      "res = (if return_numpy then PyArray r
                else PyDirichlet \<lparr>IS_AOA = IS_AOA self, values = r\<rparr>)"
      "length h \<le> r" "is_obj (h' ! r) = IS_AOA self"
    and ws: "raw_tensors h' r = Some (map wnorm_tensor ?ts)" by blast
  have per: "fst (map wnorm_tensor ?ts ! k) = fst (?ts ! k)
          \<and> length (snd (map wnorm_tensor ?ts ! k)) = length (snd (?ts ! k))
          \<and> (\<forall>i<rows (?ts ! k). \<forall>j<cols (?ts ! k).
                entry (floor_tensor (?ts ! k)) i j = fadd (entry (?ts ! k) i j) exp_m16
              \<and> entry (map wnorm_tensor ?ts ! k) i j
                  = fsub (fdiv (Fin 1) (col_sum (floor_tensor (?ts ! k)) j))
                         (fdiv (Fin 1) (entry (floor_tensor (?ts ! k)) i j)))
          \<and> (\<forall>j<cols (?ts ! k). \<forall>x.
                (\<forall>i<rows (?ts ! k). entry (?ts ! k) i j = Fin (x i) \<and> 0 \<le> x i) \<longrightarrow>
                (\<forall>i<rows (?ts ! k).
                    entry (map wnorm_tensor ?ts ! k) i j
                    = Fin (1 / (\<Sum>i'<rows (?ts ! k). x i' + exp (- 16))
                           - 1 / (x i + exp (- 16)))))"
    if k: "k < length (map wnorm_tensor ?ts)" for k
  proof -
    let ?t = "?ts ! k"
    from k have k': "k < length ?ts" by simp
    then have nk: "map wnorm_tensor ?ts ! k = wnorm_tensor ?t" by simp
    from wf_storeD [OF assms] k' have w: "wf_tensor ?t" by simp
    then have s: "fst ?t \<noteq> []" and l: "length (snd ?t) = prod_list (fst ?t)"
      by (auto simp: wf_tensor_def)
    have 1: "fst (wnorm_tensor ?t) = fst ?t" using s l by (rule wnorm_tensor_shape)
    have 2: "length (snd (wnorm_tensor ?t)) = length (snd ?t)"
      using s l by (rule wnorm_tensor_length)
    have 3: "\<forall>i<rows ?t. \<forall>j<cols ?t.
                entry (floor_tensor ?t) i j = fadd (entry ?t i j) exp_m16
              \<and> entry (wnorm_tensor ?t) i j
                  = fsub (fdiv (Fin 1) (col_sum (floor_tensor ?t) j))
                         (fdiv (Fin 1) (entry (floor_tensor ?t) i j))"
      using floor_tensor_entry [OF s l] wnorm_tensor_entry [OF s l] by blast
    have 4: "\<forall>j<cols ?t. \<forall>x.
                (\<forall>i<rows ?t. entry ?t i j = Fin (x i) \<and> 0 \<le> x i) \<longrightarrow>
                (\<forall>i<rows ?t. entry (wnorm_tensor ?t) i j
                    = Fin (1 / (\<Sum>i'<rows ?t. x i' + exp (- 16)) - 1 / (x i + exp (- 16))))"
      using wnorm_tensor_real [OF s l] by blast
    from 1 2 3 4 show ?thesis unfolding nk by blast
  qed
  have len: "length (map wnorm_tensor ?ts) = length ?ts" by simp
  from run ws len per show ?thesis by blast
qed

theorem wnorm_formula_witness:
  "wf_store [NumArr [2, 1] [Fin 1, Fin 3]] \<lparr>IS_AOA = False, values = 0\<rparr>
   \<and> (\<exists>res h' r ws. wnorm \<lparr>IS_AOA = False, values = 0\<rparr> True [NumArr [2, 1] [Fin 1, Fin 3]]
          = (Inr res, h')
        \<and> res = PyArray r \<and> h' ! 0 = NumArr [2, 1] [Fin 1, Fin 3]
        \<and> raw_tensors h' r = Some ws \<and> fst (ws ! 0) = [2, 1]
        \<and> entry (ws ! 0) 0 0 = Fin (1 / (1 + exp (- 16) + (3 + exp (- 16))) - 1 / (1 + exp (- 16)))
        \<and> entry (ws ! 0) 1 0 = Fin (1 / (1 + exp (- 16) + (3 + exp (- 16))) - 1 / (3 + exp (- 16))))"
proof -
  let ?h = "[NumArr [2, 1] [Fin 1, Fin 3]]" and ?s = "\<lparr>IS_AOA = False, values = 0\<rparr>"
  let ?t = "([2, 1], [Fin 1, Fin 3]) :: tensor"
  have wf: "wf_store ?h ?s" by (simp add: wf_store_def raw_tensors_def wf_tensor_def)
  have ts: "tensors ?h ?s = [?t]" by (simp add: tensors_def raw_tensors_def)
  from wnorm_formula [OF wf, of True] obtain res h' r ws where
    run: "wnorm ?s True ?h = (Inr res, h')" and ext: "extends ?h h'"
    and res: "res = (if True then PyArray r else PyDirichlet \<lparr>IS_AOA = IS_AOA ?s, values = r\<rparr>)"
    and ws: "raw_tensors h' r = Some ws" "length ws = length (tensors ?h ?s)"
    and per: "\<forall>k<length ws.
            fst (ws ! k) = fst (tensors ?h ?s ! k)
          \<and> length (snd (ws ! k)) = length (snd (tensors ?h ?s ! k))
          \<and> (\<forall>i<rows (tensors ?h ?s ! k). \<forall>j<cols (tensors ?h ?s ! k).
                entry (floor_tensor (tensors ?h ?s ! k)) i j
                  = fadd (entry (tensors ?h ?s ! k) i j) exp_m16
              \<and> entry (ws ! k) i j
                  = fsub (fdiv (Fin 1) (col_sum (floor_tensor (tensors ?h ?s ! k)) j))
                         (fdiv (Fin 1) (entry (floor_tensor (tensors ?h ?s ! k)) i j)))
          \<and> (\<forall>j<cols (tensors ?h ?s ! k). \<forall>x.
                (\<forall>i<rows (tensors ?h ?s ! k).
                    entry (tensors ?h ?s ! k) i j = Fin (x i) \<and> 0 \<le> x i) \<longrightarrow>
                (\<forall>i<rows (tensors ?h ?s ! k).
                    entry (ws ! k) i j
                    = Fin (1 / (\<Sum>i'<rows (tensors ?h ?s ! k). x i' + exp (- 16))
                           - 1 / (x i + exp (- 16)))))"
    by (elim exE conjE) (rule that)
  from ws(2) ts have l1: "0 < length ws" by simp
  have s0: "fst (ws ! 0) = [2, 1]"
    using per [rule_format, OF l1, THEN conjunct1] unfolding ts by simp
  have e: "entry (ws ! 0) i 0
      = fsub (fdiv (Fin 1) (col_sum (floor_tensor ?t) 0)) (fdiv (Fin 1) (entry (floor_tensor ?t) i 0))"
    if "i < 2" for i
    using per [rule_format, OF l1, THEN conjunct2, THEN conjunct2, THEN conjunct1,
        rule_format, of i 0, THEN conjunct2] that
    unfolding ts by (simp add: rows_def cols_def)
  have c: "col_sum (floor_tensor ?t) 0 = Fin (1 + exp (- 16) + (3 + exp (- 16)))"
    "entry (floor_tensor ?t) 0 0 = Fin (1 + exp (- 16))"
    "entry (floor_tensor ?t) 1 0 = Fin (3 + exp (- 16))"
    by (simp_all add: col_sum_def entry_def rows_def cols_def floor_tensor_def exp_m16_def
        upt_conv_Cons)
  have p: "(0::real) < exp (- 16)" by simp
  then have nz: "1 + exp (- 16) + (3 + exp (- 16)) \<noteq> (0::real)" "1 + exp (- 16) \<noteq> (0::real)"
    "3 + exp (- 16) \<noteq> (0::real)" by linarith+
  have v: "entry (ws ! 0) 0 0 = Fin (1 / (1 + exp (- 16) + (3 + exp (- 16))) - 1 / (1 + exp (- 16)))"
    "entry (ws ! 0) 1 0 = Fin (1 / (1 + exp (- 16) + (3 + exp (- 16))) - 1 / (3 + exp (- 16)))"
    using e [of 0] e [of 1] nz unfolding c by (simp_all add: fsub_def)
  from extendsD [OF ext] have "h' ! 0 = ?h ! 0" by simp
  with wf run res ws(1) s0 v show ?thesis by auto
qed

subsection \<open>log\<close>

lemma any_zero_from_ok:
  assumes "\<forall>i<length sl. \<exists>a. sl ! i = Some a \<and> a < length h
             \<and> h ! a = NumArr (fst (ts ! i)) (snd (ts ! i))"
    and "length ts = length sl"
  shows "any_zero_from h sl = Inr (\<exists>t\<in>set ts. has_zero (snd t))"
  using assms
proof (induction sl arbitrary: ts)
  case Nil
  then show ?case by simp
next
  case (Cons s sl)
  from Cons.prems(2) obtain t ts' where ts: "ts = t # ts'" by (cases ts) auto
  from Cons.prems(1) [rule_format, of 0] ts obtain a where a: "s = Some a" "a < length h"
    "h ! a = NumArr (fst t) (snd t)" by auto
  have "\<forall>i<length sl. \<exists>a. sl ! i = Some a \<and> a < length h
             \<and> h ! a = NumArr (fst (ts' ! i)) (snd (ts' ! i))"
  proof (intro allI impI)
    fix i assume "i < length sl"
    with Cons.prems(1) [rule_format, of "Suc i"] ts
    show "\<exists>a. sl ! i = Some a \<and> a < length h \<and> h ! a = NumArr (fst (ts' ! i)) (snd (ts' ! i))"
      by simp
  qed
  moreover from Cons.prems(2) ts have "length ts' = length sl" by simp
  ultimately have "any_zero_from h sl = Inr (\<exists>t\<in>set ts'. has_zero (snd t))"
    by (rule Cons.IH)
  with a ts show ?case by simp
qed

lemma contains_zeros_ok:
  assumes wf: "wf_store h s"
  shows "contains_zeros s h = (Inr (\<exists>t\<in>set (tensors h s). has_zero (snd t)), h)"
proof -
  let ?ts = "tensors h s"
  from wf_storeD [OF wf] have ts: "raw_tensors h (values s) = Some ?ts"
    and flag: "IS_AOA s = is_obj (h ! values s)" and v: "values s < length h" by auto
  show ?thesis
  proof (cases "h ! values s")
    case (NumArr sh dt)
    from raw_tensors_num [OF ts NumArr] have "?ts = [(sh, dt)]" by simp
    with flag NumArr v show ?thesis
      by (simp add: contains_zeros_def bnd_def load_def ret_def)
  next
    case (ObjArr sl)
    from raw_tensors_obj [OF ts ObjArr] have len: "length ?ts = length sl"
      and src: "\<forall>i<length sl. \<exists>a. sl ! i = Some a \<and> a < length h
            \<and> h ! a = NumArr (fst (?ts ! i)) (snd (?ts ! i))" by auto
    from any_zero_from_ok [OF src len] flag ObjArr v show ?thesis
      by (simp add: contains_zeros_def bnd_def load_def)
  qed
qed

lemma remove_zeros_ok:
  assumes ts: "raw_tensors h (values s) = Some ts"
  shows "\<exists>h'. remove_zeros s h = (Inr (), h')
      \<and> raw_tensors h' (values s) = Some (map floor_tensor ts)
      \<and> is_obj (h' ! values s) = is_obj (h ! values s)
      \<and> length h \<le> length h' \<and> (\<forall>a<length h. a \<noteq> values s \<longrightarrow> h' ! a = h ! a)"
proof -
  obtain f v where s: "s = \<lparr>IS_AOA = f, values = v\<rparr>" by (cases s) auto
  from ts have tv: "raw_tensors h v = Some ts" by (simp add: s)
  then have v: "v < length h" by (auto simp: raw_tensors_def split: if_splits)
  show ?thesis
  proof (cases "h ! v")
    case (NumArr sh dt)
    from raw_tensors_num [OF tv NumArr] have t1: "ts = [(sh, dt)]" by simp
    let ?h' = "h[v := NumArr sh (add_floor dt)]"
    have "raw_tensors ?h' v = Some (map floor_tensor ts)"
      using v t1 by (simp add: raw_tensors_def floor_tensor_def add_floor_def)
    moreover have "is_obj (?h' ! v) = is_obj (h ! v)" using v NumArr by simp
    ultimately show ?thesis
      using remove_zeros_dense [OF v NumArr, of f] by (simp add: s)
  next
    case (ObjArr sl)
    from remove_zeros_ragged [OF tv ObjArr, of f] ObjArr show ?thesis by (auto simp: s)
  qed
qed

lemma wf_tensor_floor: "wf_tensor t \<Longrightarrow> wf_tensor (floor_tensor t)"
  by (simp add: wf_tensor_def)

lemma np_copy_log:
  assumes "a < length h" "h ! a = NumArr sh dt" "sh \<noteq> []"
  shows "bnd (np_copy a) (\<lambda>v. np_log v) h
     = (Inr (Suc (length h)), h @ [NumArr sh dt, NumArr sh (map flog dt)])"
  using assms by (simp add: bnd_def np_copy_def np_log_def load_def alloc_def nth_append)

lemma log_step_ok:
  assumes "v < length h" "h ! v = ObjArr sl" "i < length sl" "sl ! i = Some a" "a < length h"
    "h ! a = NumArr sh dt" "sh \<noteq> []" "r < length h" "h ! r = ObjArr sl2" "i < length sl2"
  shows "log_step v r i h
     = (Inr (), (h @ [NumArr sh dt] @ [NumArr sh (map flog dt)])
                [r := ObjArr (sl2[i := Some (length h + 1)])])"
proof -
  let ?h2 = "h @ [NumArr sh dt, NumArr sh (map flog dt)]"
  have g: "get_slot v i h = (Inr (Some a), h)"
    using get_slot_ok [OF assms(1,2,3)] assms(4) by simp
  have c: "np_copy a h = (Inr (length h), h @ [NumArr sh dt])"
    using assms(5,6) by (simp add: np_copy_def bnd_def load_def alloc_def)
  have l: "np_log (length h) (h @ [NumArr sh dt]) = (Inr (Suc (length h)), ?h2)"
    using assms(7) by (simp add: np_log_def bnd_def load_def alloc_def)
  have s: "set_slot r i (Some (Suc (length h))) ?h2
      = (Inr (), ?h2[r := ObjArr (sl2[i := Some (Suc (length h))])])"
    using assms(8,9,10) by (intro set_slot_ok) (simp_all add: nth_append)
  show ?thesis by (simp add: log_step_def bnd_def g c l s)
qed

lemma log_values_ok:
  assumes wf: "wf_store h s"
  shows "\<exists>r h'. log_values s h = (Inr r, h')
      \<and> extends h h' \<and> length h \<le> r \<and> is_obj (h' ! r) = IS_AOA s
      \<and> raw_tensors h' r = Some (map (map_tensor flog) (tensors h s))"
proof -
  let ?ts = "tensors h s"
  from wf_storeD [OF wf] have ts: "raw_tensors h (values s) = Some ?ts"
    and flag: "IS_AOA s = is_obj (h ! values s)" and w: "\<forall>t\<in>set ?ts. wf_tensor t"
    and v: "values s < length h" by auto
  show ?thesis
  proof (cases "h ! values s")
    case (NumArr sh dt)
    from raw_tensors_num [OF ts NumArr] have t1: "?ts = [(sh, dt)]" by simp
    with w have sh: "sh \<noteq> []" by (auto simp: wf_tensor_def)
    from flag NumArr have nf: "\<not> IS_AOA s" by simp
    let ?h' = "h @ [NumArr sh dt, NumArr sh (map flog dt)]"
    have "raw_tensors ?h' (Suc (length h)) = Some [map_tensor flog (sh, dt)]"
      by (simp add: raw_tensors_def nth_append map_tensor_def)
    moreover have "extends h ?h'" by simp
    moreover have "is_obj (?h' ! Suc (length h)) = IS_AOA s" using nf by (simp add: nth_append)
    ultimately show ?thesis
      using np_copy_log [OF v NumArr sh] t1 nf by (simp add: log_values_def)
  next
    case (ObjArr sl)
    from flag ObjArr have f: "IS_AOA s" by simp
    from raw_tensors_obj [OF ts ObjArr] have len: "length ?ts = length sl"
      and src: "\<forall>i<length sl. \<exists>a. sl ! i = Some a \<and> a < length h \<and> a \<noteq> values s
            \<and> h ! a = NumArr (fst (?ts ! i)) (snd (?ts ! i))" by auto
    let ?n = "length sl"
    let ?F = "\<lambda>k. map_tensor flog (?ts ! k)"
    have "\<exists>h'. for_range ?n (log_step (values s) (length h)) (h @ [ObjArr (replicate ?n None)])
          = (Inr (), h')
        \<and> extends h h' \<and> length h < length h' \<and> is_obj (h' ! length h)
        \<and> raw_tensors h' (length h) = Some (map ?F [0..<?n])"
    proof (rule new_obj_loop)
      fix i h2 sl2
      assume i: "i < ?n" and l: "length h < length h2" and old: "\<forall>b<length h. h2 ! b = h ! b"
        and sl2: "h2 ! length h = ObjArr sl2" "length sl2 = ?n"
      from src i obtain a where a: "sl ! i = Some a" "a < length h"
        "h ! a = NumArr (fst (?ts ! i)) (snd (?ts ! i))" by blast
      from w i len have "wf_tensor (?ts ! i)" by simp
      then have rk: "fst (?ts ! i) \<noteq> []" by (auto simp: wf_tensor_def)
      have "log_step (values s) (length h) i h2
        = (Inr (), (h2 @ [NumArr (fst (?ts ! i)) (snd (?ts ! i))]
                       @ [NumArr (fst (?ts ! i)) (map flog (snd (?ts ! i)))])
              [length h := ObjArr (sl2[i := Some (length h2 + 1)])])"
        using v l ObjArr i a old rk sl2
        by (intro log_step_ok [where sl = sl and a = a]) simp_all
      then show "\<exists>ys. log_step (values s) (length h) i h2
         = (Inr (), (h2 @ ys @ [NumArr (fst (?F i)) (snd (?F i))])
              [length h := ObjArr (sl2[i := Some (length h2 + length ys)])])"
        by (intro exI [of _ "[NumArr (fst (?ts ! i)) (snd (?ts ! i))]"])
          (simp add: map_tensor_def)
    qed
    then obtain h' where loop: "for_range ?n (log_step (values s) (length h))
           (h @ [ObjArr (replicate ?n None)]) = (Inr (), h')"
      and rest: "extends h h'" "length h < length h'" "is_obj (h' ! length h)"
        "raw_tensors h' (length h) = Some (map ?F [0..<?n])" by blast
    have "map ?F [0..<?n] = map (map_tensor flog) ?ts"
      using len by (intro map_upt_nth_list) simp
    with rest f v ObjArr loop show ?thesis
      by (simp add: log_values_def bnd_def load_def alloc_def ret_def)
  qed
qed

lemma wf_storeI:
  assumes "raw_tensors h (values s) = Some ts" "IS_AOA s = is_obj (h ! values s)"
    "\<forall>t\<in>set ts. wf_tensor t"
  shows "wf_store h s \<and> tensors h s = ts"
  using assms by (simp add: wf_store_def tensors_def list_all_iff)

lemma log_ok:
  assumes wf: "wf_store h s"
  shows "\<exists>res h' r. log_d s return_numpy h
        = (Inr (res, if (\<exists>t\<in>set (tensors h s). has_zero (snd t)) then [log_warning] else []), h')
      \<and> raw_tensors h' (values s)
        = Some (if (\<exists>t\<in>set (tensors h s). has_zero (snd t))
                then map floor_tensor (tensors h s) else tensors h s)
      \<and> is_obj (h' ! values s) = IS_AOA s
      \<and> (\<forall>a<length h. a \<noteq> values s \<longrightarrow> h' ! a = h ! a)
      \<and> res = (if return_numpy then PyArray r
                else PyDirichlet \<lparr>IS_AOA = IS_AOA s, values = r\<rparr>)
      \<and> length h \<le> r \<and> is_obj (h' ! r) = IS_AOA s
      \<and> raw_tensors h' r
        = Some (map (map_tensor flog)
                 (if (\<exists>t\<in>set (tensors h s). has_zero (snd t))
                  then map floor_tensor (tensors h s) else tensors h s))"
proof -
  let ?ts = "tensors h s"
  let ?Z = "\<exists>t\<in>set ?ts. has_zero (snd t)"
  let ?T1 = "if ?Z then map floor_tensor ?ts else ?ts"
  let ?W = "if ?Z then [log_warning] else []"
  from wf_storeD [OF wf] have ts: "raw_tensors h (values s) = Some ?ts"
    and flag: "IS_AOA s = is_obj (h ! values s)" and w: "\<forall>t\<in>set ?ts. wf_tensor t"
    and v: "values s < length h" by auto
  have cz: "contains_zeros s h = (Inr ?Z, h)" using wf by (rule contains_zeros_ok)
  have "\<exists>h1. (if ?Z then bnd (remove_zeros s) (\<lambda>_. ret [log_warning]) else ret []) h = (Inr ?W, h1)
      \<and> raw_tensors h1 (values s) = Some ?T1 \<and> is_obj (h1 ! values s) = is_obj (h ! values s)
      \<and> length h \<le> length h1 \<and> (\<forall>a<length h. a \<noteq> values s \<longrightarrow> h1 ! a = h ! a)"
  proof (cases ?Z)
    case True
    from remove_zeros_ok [OF ts] obtain h1 where "remove_zeros s h = (Inr (), h1)"
      "raw_tensors h1 (values s) = Some (map floor_tensor ?ts)"
      "is_obj (h1 ! values s) = is_obj (h ! values s)"
      "length h \<le> length h1" "\<forall>a<length h. a \<noteq> values s \<longrightarrow> h1 ! a = h ! a" by blast
    with True show ?thesis by (simp add: bnd_def ret_def)
  next
    case False
    with ts show ?thesis by (simp add: ret_def)
  qed
  then obtain h1 where
    rep: "(if ?Z then bnd (remove_zeros s) (\<lambda>_. ret [log_warning]) else ret []) h = (Inr ?W, h1)"
    and t1: "raw_tensors h1 (values s) = Some ?T1"
    and k1: "is_obj (h1 ! values s) = is_obj (h ! values s)"
    and l1: "length h \<le> length h1" and f1: "\<forall>a<length h. a \<noteq> values s \<longrightarrow> h1 ! a = h ! a"
    by blast
  have wT: "\<forall>t\<in>set ?T1. wf_tensor t" using w wf_tensor_floor by auto
  from wf_storeI [OF t1 _ wT] flag k1 have wf1: "wf_store h1 s" and ten1: "tensors h1 s = ?T1"
    by simp_all
  from log_values_ok [OF wf1] ten1 obtain r1 h2 where
    lv: "log_values s h1 = (Inr r1, h2)" and e2: "extends h1 h2" and l2: "length h1 \<le> r1"
    and k2: "is_obj (h2 ! r1) = IS_AOA s"
    and t2: "raw_tensors h2 r1 = Some (map (map_tensor flog) ?T1)" by auto
  have rank: "\<forall>t\<in>set (map (map_tensor flog) ?T1). length (fst t) \<noteq> 1"
  proof
    fix t assume "t \<in> set (map (map_tensor flog) ?T1)"
    then obtain u where u: "u \<in> set ?T1" "t = map_tensor flog u" by auto
    with wT have "wf_tensor u" by blast
    then have "2 \<le> length (fst u)" by (simp add: wf_tensor_def)
    with u(2) show "length (fst t) \<noteq> 1" by (simp add: map_tensor_def)
  qed
  from wrap_ok [OF t2 rank, of return_numpy] obtain res h' r where
    wr: "wrap return_numpy r1 h2 = (Inr res, h')" and e3: "extends h2 h'"
    and res: "res = (if return_numpy then PyArray r
                else PyDirichlet \<lparr>IS_AOA = is_obj (h2 ! r1), values = r\<rparr>)"
    and r: "r1 \<le> r" "is_obj (h' ! r) = is_obj (h2 ! r1)"
      "raw_tensors h' r = Some (map (map_tensor flog) ?T1)" by blast
  have run: "log_d s return_numpy h = (Inr (res, ?W), h')"
    by (simp add: log_d_def bnd_def cz rep lv wr ret_def)
  have e13: "extends h1 h'" using e2 e3 by (rule extends_trans)
  from raw_tensors_extends [OF e13 t1] have t': "raw_tensors h' (values s) = Some ?T1" .
  from extendsD [OF e13] l1 v have same: "h' ! values s = h1 ! values s" by simp
  have frame: "\<forall>a<length h. a \<noteq> values s \<longrightarrow> h' ! a = h ! a"
  proof (intro allI impI)
    fix a assume a: "a < length h" "a \<noteq> values s"
    with l1 extendsD [OF e13] have "h' ! a = h1 ! a" by simp
    with f1 a show "h' ! a = h ! a" by simp
  qed
  from run t' same k1 flag frame res r k2 l1 l2 show ?thesis by auto
qed

lemma nonneg_floor_log:
  assumes "nonneg_tensor t" "n < length (snd t)"
  shows "\<exists>x. snd t ! n = Fin x \<and> snd (map_tensor flog (floor_tensor t)) ! n = Fin (ln (x + exp (- 16)))
      \<and> snd (floor_tensor t) ! n \<noteq> Fin 0"
proof -
  from assms obtain x where x: "snd t ! n = Fin x" "0 \<le> x"
    by (cases "snd t ! n") (auto simp: nonneg_tensor_def list_all_length)
  have "0 < exp (- 16 :: real)" by simp
  with x(2) have "0 < x + exp (- 16)" by (rule add_nonneg_pos)
  with x(1) assms(2) show ?thesis
    by (simp add: map_tensor_def floor_tensor_def exp_m16_def)
qed

lemma nonneg_floor_no_zero:
  assumes "nonneg_tensor t"
  shows "\<not> has_zero (snd (floor_tensor t))"
proof
  assume "has_zero (snd (floor_tensor t))"
  then obtain n where n: "n < length (snd (floor_tensor t))" "snd (floor_tensor t) ! n = Fin 0"
    by (auto simp: has_zero_def list_ex_iff in_set_conv_nth)
  then have "n < length (snd t)" by simp
  from nonneg_floor_log [OF assms this] n(2) show False by auto
qed

text \<open>
  C3, as the code has it. Let the store be well-formed with entries that are finite and
  not negative, at least one of them exactly 0. Then \<^verbatim>\<open>log\<close> ends without an exception
  and gives one warning, the text of line 203. The container at \<open>values self\<close>, the
  receiver's own, holds afterwards every old entry plus \<^verbatim>\<open>np.exp(-16)\<close>; no other array
  that existed before has changed. The result is the address of a new container of the
  same representation when the flag is set and a new Dirichlet object over one
  otherwise; it has the shapes of the store, and where the store had the entry \<open>x\<close> it
  has the finite value \<open>ln (x + exp (- 16))\<close>. Any well-formed store of the same
  representation that holds the repaired tensors gets the same tensors from \<^verbatim>\<open>log\<close>,
  with no warning.
\<close>

theorem log_repairs_zeros:
  assumes wf: "wf_store h self"
    and nn: "\<forall>t\<in>set (tensors h self). nonneg_tensor t"
    and z: "\<exists>t\<in>set (tensors h self). has_zero (snd t)"
  shows "\<exists>res h' r ls. log_d self return_numpy h = (Inr (res, [log_warning]), h')
      \<and> raw_tensors h' (values self) = Some (map floor_tensor (tensors h self))
      \<and> is_obj (h' ! values self) = IS_AOA self
      \<and> (\<forall>a<length h. a \<noteq> values self \<longrightarrow> h' ! a = h ! a)
      \<and> res = (if return_numpy then PyArray r
                else PyDirichlet \<lparr>IS_AOA = IS_AOA self, values = r\<rparr>)
      \<and> length h \<le> r \<and> is_obj (h' ! r) = IS_AOA self
      \<and> raw_tensors h' r = Some ls \<and> length ls = length (tensors h self)
      \<and> (\<forall>k<length ls.
            fst (ls ! k) = fst (tensors h self ! k)
          \<and> length (snd (ls ! k)) = length (snd (tensors h self ! k))
          \<and> (\<forall>n<length (snd (ls ! k)). \<exists>x. snd (tensors h self ! k) ! n = Fin x
                \<and> snd (ls ! k) ! n = Fin (ln (x + exp (- 16)))))
      \<and> (\<forall>h2 s2. wf_store h2 s2 \<and> IS_AOA s2 = IS_AOA self
                  \<and> tensors h2 s2 = map floor_tensor (tensors h self) \<longrightarrow>
            (\<exists>res2 h2' r2. log_d s2 return_numpy h2 = (Inr (res2, []), h2')
               \<and> res2 = (if return_numpy then PyArray r2
                          else PyDirichlet \<lparr>IS_AOA = IS_AOA self, values = r2\<rparr>)
               \<and> is_obj (h2' ! r2) = IS_AOA self
               \<and> raw_tensors h2' r2 = Some ls))"
proof -
  let ?ts = "tensors h self"
  let ?ls = "map (map_tensor flog) (map floor_tensor ?ts)"
  from log_ok [OF wf, of return_numpy] z obtain res h' r where
    run: "log_d self return_numpy h = (Inr (res, [log_warning]), h')"
      "raw_tensors h' (values self) = Some (map floor_tensor ?ts)"
      "is_obj (h' ! values self) = IS_AOA self"
      "\<forall>a<length h. a \<noteq> values self \<longrightarrow> h' ! a = h ! a"
      "res = (if return_numpy then PyArray r
                else PyDirichlet \<lparr>IS_AOA = IS_AOA self, values = r\<rparr>)"
      "length h \<le> r" "is_obj (h' ! r) = IS_AOA self"
    and ls: "raw_tensors h' r = Some ?ls" by auto
  have len: "length ?ls = length ?ts" by simp
  have per: "\<forall>k<length ?ls.
            fst (?ls ! k) = fst (?ts ! k)
          \<and> length (snd (?ls ! k)) = length (snd (?ts ! k))
          \<and> (\<forall>n<length (snd (?ls ! k)). \<exists>x. snd (?ts ! k) ! n = Fin x
                \<and> snd (?ls ! k) ! n = Fin (ln (x + exp (- 16))))"
  proof (intro allI impI)
    fix k assume "k < length ?ls"
    then have k: "k < length ?ts" by simp
    then have lk: "?ls ! k = map_tensor flog (floor_tensor (?ts ! k))" by simp
    from nn k have n: "nonneg_tensor (?ts ! k)" by simp
    have 1: "fst (?ls ! k) = fst (?ts ! k)" unfolding lk by (simp add: map_tensor_def)
    have 2: "length (snd (?ls ! k)) = length (snd (?ts ! k))"
      unfolding lk by (simp add: map_tensor_def)
    have 3: "\<forall>n<length (snd (?ls ! k)). \<exists>x. snd (?ts ! k) ! n = Fin x
                \<and> snd (?ls ! k) ! n = Fin (ln (x + exp (- 16)))"
      unfolding 2 unfolding lk using nonneg_floor_log [OF n] by blast
    from 1 2 3 show "fst (?ls ! k) = fst (?ts ! k)
          \<and> length (snd (?ls ! k)) = length (snd (?ts ! k))
          \<and> (\<forall>n<length (snd (?ls ! k)). \<exists>x. snd (?ts ! k) ! n = Fin x
                \<and> snd (?ls ! k) ! n = Fin (ln (x + exp (- 16))))" by blast
  qed
  have pre: "\<exists>res2 h2' r2. log_d s2 return_numpy h2 = (Inr (res2, []), h2')
               \<and> res2 = (if return_numpy then PyArray r2
                          else PyDirichlet \<lparr>IS_AOA = IS_AOA self, values = r2\<rparr>)
               \<and> is_obj (h2' ! r2) = IS_AOA self
               \<and> raw_tensors h2' r2 = Some ?ls"
    if wf2: "wf_store h2 s2" and f2: "IS_AOA s2 = IS_AOA self"
      and t2: "tensors h2 s2 = map floor_tensor ?ts" for h2 s2
  proof -
    have nz: "\<not> (\<exists>t\<in>set (tensors h2 s2). has_zero (snd t))"
      unfolding t2 using nn nonneg_floor_no_zero by auto
    from log_ok [OF wf2, of return_numpy] nz t2 f2 show ?thesis by auto
  qed
  from run ls len per pre show ?thesis by blast
qed

theorem log_repairs_zeros_witness:
  "wf_store [NumArr [1, 2] [Fin 0, Fin 1]] \<lparr>IS_AOA = False, values = 0\<rparr>
   \<and> nonneg_tensor ([1, 2], [Fin 0, Fin 1]) \<and> has_zero [Fin 0, Fin 1]
   \<and> (\<exists>res h' r ls. log_d \<lparr>IS_AOA = False, values = 0\<rparr> False [NumArr [1, 2] [Fin 0, Fin 1]]
          = (Inr (res, [log_warning]), h')
        \<and> raw_tensors h' 0 = Some [([1, 2], [Fin (exp (- 16)), Fin (1 + exp (- 16))])]
        \<and> res = PyDirichlet \<lparr>IS_AOA = False, values = r\<rparr>
        \<and> raw_tensors h' r = Some ls \<and> fst (ls ! 0) = [1, 2]
        \<and> snd (ls ! 0) ! 0 = Fin (- 16) \<and> snd (ls ! 0) ! 1 = Fin (ln (1 + exp (- 16))))"
proof -
  let ?h = "[NumArr [1, 2] [Fin 0, Fin 1]]" and ?s = "\<lparr>IS_AOA = False, values = 0\<rparr>"
  let ?t = "([1, 2], [Fin 0, Fin 1]) :: tensor"
  have wf: "wf_store ?h ?s" by (simp add: wf_store_def raw_tensors_def wf_tensor_def)
  have ts: "tensors ?h ?s = [?t]" by (simp add: tensors_def raw_tensors_def)
  have nt: "nonneg_tensor ?t" by (simp add: nonneg_tensor_def)
  have hz: "has_zero [Fin 0, Fin 1]" by (simp add: has_zero_def)
  have nn: "\<forall>t\<in>set (tensors ?h ?s). nonneg_tensor t" unfolding ts using nt by simp
  have z: "\<exists>t\<in>set (tensors ?h ?s). has_zero (snd t)" unfolding ts using hz by simp
  from log_repairs_zeros [OF wf nn z, of False] obtain res h' r ls where
    run: "log_d ?s False ?h = (Inr (res, [log_warning]), h')"
    and rep: "raw_tensors h' (values ?s) = Some (map floor_tensor (tensors ?h ?s))"
    and res: "res = (if False then PyArray r
                else PyDirichlet \<lparr>IS_AOA = IS_AOA ?s, values = r\<rparr>)"
    and ls: "raw_tensors h' r = Some ls" "length ls = length (tensors ?h ?s)"
    and per: "\<forall>k<length ls.
            fst (ls ! k) = fst (tensors ?h ?s ! k)
          \<and> length (snd (ls ! k)) = length (snd (tensors ?h ?s ! k))
          \<and> (\<forall>n<length (snd (ls ! k)). \<exists>x. snd (tensors ?h ?s ! k) ! n = Fin x
                \<and> snd (ls ! k) ! n = Fin (ln (x + exp (- 16))))"
    by (elim exE conjE) (rule that)
  from ls(2) ts have l1: "0 < length ls" by simp
  note p0 = per [rule_format, OF l1]
  have s0: "fst (ls ! 0) = [1, 2]" using p0 [THEN conjunct1] unfolding ts by simp
  have l0: "length (snd (ls ! 0)) = 2" using p0 [THEN conjunct2, THEN conjunct1] unfolding ts by simp
  have e: "\<exists>x. [Fin 0, Fin 1] ! n = Fin x \<and> snd (ls ! 0) ! n = Fin (ln (x + exp (- 16)))"
    if "n < 2" for n
    using p0 [THEN conjunct2, THEN conjunct2, rule_format, of n] that l0 unfolding ts by simp
  from e [of 0] have v0: "snd (ls ! 0) ! 0 = Fin (- 16)" by simp
  from e [of 1] have v1: "snd (ls ! 0) ! 1 = Fin (ln (1 + exp (- 16)))" by simp
  have fl: "map floor_tensor (tensors ?h ?s) = [([1, 2], [Fin (exp (- 16)), Fin (1 + exp (- 16))])]"
    unfolding ts by (simp add: floor_tensor_def exp_m16_def)
  from wf nt hz run rep res ls(1) s0 v0 v1 show ?thesis unfolding fl by auto
qed

theorem log_negative_counterexample:
  "has_zero [Fin 0, Fin (- 1)]
   \<and> log_d \<lparr>IS_AOA = False, values = 0\<rparr> True [NumArr [2, 1] [Fin 0, Fin (- 1)]]
     = (Inr (PyArray 2, [log_warning]),
        [NumArr [2, 1] [Fin (exp (- 16)), Fin (- 1 + exp (- 16))],
         NumArr [2, 1] [Fin (exp (- 16)), Fin (- 1 + exp (- 16))],
         NumArr [2, 1] [Fin (- 16), NaN]])
   \<and> \<not> isfinite NaN"
proof -
  have "exp (- 16 :: real) < 1" by simp
  then have neg: "\<not> 0 < - 1 + exp (- 16 :: real)" "- 1 + exp (- 16 :: real) \<noteq> 0" by linarith+
  show ?thesis
    using neg
    by (simp add: has_zero_def log_d_def contains_zeros_def remove_zeros_def log_values_def
        wrap_def np_copy_def np_log_def add_floor_def exp_m16_def
        bnd_def load_def store_def alloc_def ret_def)
qed

subsection \<open>Construction from values\<close>

lemma construct_values_step_promote:
  assumes "v < length h" "h ! v = ObjArr slv" "i < length slv" "slv ! i = Some a" "a < length h"
    "h ! a = NumArr sh dt" "length sh = 1" "r < length h" "h ! r = ObjArr slr" "i < length slr"
    "r \<noteq> v"
  shows "construct_values_step v r i h
     = (Inr (), (h @ [NumArr (sh @ [1]) dt, NumArr (sh @ [1]) dt])
                [v := ObjArr (slv[i := Some (length h)]),
                 r := ObjArr (slr[i := Some (Suc (length h))])])"
proof -
  let ?E = "NumArr (sh @ [Suc 0]) dt"
  let ?h1 = "h @ [?E]"
  let ?h2 = "?h1[v := ObjArr (slv[i := Some (length h)])]"
  let ?h3 = "?h2 @ [?E]"
  from assms(7) obtain n where shn: "sh = [n]" by (cases sh) auto
  have sh1: "take (Suc 0) sh @ Suc 0 # drop (Suc 0) sh = sh @ [Suc 0]" unfolding shn by simp
  have g: "get_slot v i h = (Inr (Some a), h)"
    using get_slot_ok [OF assms(1,2,3)] assms(4) by simp
  have l: "load a h = (Inr (NumArr sh dt), h)" using load_ok [OF assms(5)] assms(6) by simp
  have e: "expand_dims1 a h = (Inr (length h), ?h1)"
    by (simp add: expand_dims1_def bnd_def l alloc_def sh1)
  have s1: "set_slot v i (Some (length h)) ?h1 = (Inr (), ?h2)"
    using assms(1,2,3) by (intro set_slot_ok) (simp_all add: nth_append)
  have g2: "get_slot v i ?h2 = (Inr (Some (length h)), ?h2)"
    using get_slot_ok [of v ?h2 "slv[i := Some (length h)]" i] assms(1,3) by simp
  have c: "astype_float64 (length h) ?h2 = (Inr (Suc (length h)), ?h3)"
    using assms(1) by (simp add: astype_float64_def bnd_def load_def alloc_def)
  have s2: "set_slot r i (Some (Suc (length h))) ?h3
      = (Inr (), ?h3[r := ObjArr (slr[i := Some (Suc (length h))])])"
    using assms(8,9,10,11) by (intro set_slot_ok) (simp_all add: nth_append)
  have fin: "?h3[r := ObjArr (slr[i := Some (Suc (length h))])]
      = (h @ [?E, ?E])[v := ObjArr (slv[i := Some (length h)]),
                       r := ObjArr (slr[i := Some (Suc (length h))])]"
    using assms(1) by (simp add: list_update_append)
  have "construct_values_step v r i h = (Inr (), ?h3[r := ObjArr (slr[i := Some (Suc (length h))])])"
    using assms(7) by (simp add: construct_values_step_def bnd_def g l e s1 g2 c s2)
  then show ?thesis unfolding fin by simp
qed

lemma construct_values_promotes:
  assumes ts: "raw_tensors h v = Some ts" and obj: "h ! v = ObjArr sl"
  shows "\<exists>h' slv. construct_values (PyArray v) h = (Inr \<lparr>IS_AOA = True, values = length h\<rparr>, h')
      \<and> length h < length h' \<and> (\<forall>a<length h. a \<noteq> v \<longrightarrow> h' ! a = h ! a)
      \<and> h' ! v = ObjArr slv \<and> length slv = length sl
      \<and> (\<forall>k<length sl.
            if length (fst (ts ! k)) = 1
            then (\<exists>e. slv ! k = Some e \<and> length h < e \<and> e < length h'
                    \<and> h' ! e = NumArr (fst (ts ! k) @ [1]) (snd (ts ! k)))
            else slv ! k = sl ! k)
      \<and> is_obj (h' ! length h)
      \<and> raw_tensors h' (length h) = Some (map promote ts)"
proof -
  from raw_tensors_obj [OF ts obj] have v: "v < length h" and len: "length ts = length sl"
    and src: "\<forall>i<length sl. \<exists>a. sl ! i = Some a \<and> a < length h \<and> a \<noteq> v
            \<and> h ! a = NumArr (fst (ts ! i)) (snd (ts ! i))" by auto
  let ?n = "length sl" and ?r = "length h"
  let ?h1 = "h @ [ObjArr (replicate ?n None)]"
  define P where "P = (\<lambda>h2 slv k.
      if length (fst (ts ! k)) = 1
      then (\<exists>e. slv ! k = Some e \<and> length h < e \<and> e < length h2
              \<and> h2 ! e = NumArr (fst (ts ! k) @ [1]) (snd (ts ! k)))
      else slv ! k = sl ! k)"
  define Q where "Q = (\<lambda>h2 slr k.
      \<exists>c. slr ! k = Some c \<and> length h < c \<and> c < length h2
          \<and> h2 ! c = NumArr (fst (promote (ts ! k))) (snd (promote (ts ! k))))"
  define I where "I = (\<lambda>i h2. length h < length h2
      \<and> (\<forall>a<length h. a \<noteq> v \<longrightarrow> h2 ! a = h ! a)
      \<and> (\<exists>slv slr. h2 ! v = ObjArr slv \<and> length slv = ?n
             \<and> h2 ! ?r = ObjArr slr \<and> length slr = ?n
             \<and> (\<forall>k. i \<le> k \<longrightarrow> k < ?n \<longrightarrow> slv ! k = sl ! k)
             \<and> (\<forall>k<i. P h2 slv k \<and> Q h2 slr k)))"
  have I0: "I 0 ?h1" using v obj by (simp add: I_def nth_append)
  have Istep: "\<exists>h3. construct_values_step v ?r i h2 = (Inr (), h3) \<and> I (Suc i) h3"
    if i: "i < ?n" and inv: "I i h2" for i h2
  proof -
    from inv obtain slv slr where l2: "length h < length h2"
      and old: "\<forall>a<length h. a \<noteq> v \<longrightarrow> h2 ! a = h ! a"
      and sv: "h2 ! v = ObjArr slv" "length slv = ?n"
      and sr: "h2 ! ?r = ObjArr slr" "length slr = ?n"
      and rest: "\<forall>k. i \<le> k \<longrightarrow> k < ?n \<longrightarrow> slv ! k = sl ! k"
      and filled: "\<forall>k<i. P h2 slv k \<and> Q h2 slr k"
      unfolding I_def by blast
    from src i obtain a where a: "sl ! i = Some a" "a < length h" "a \<noteq> v"
      "h ! a = NumArr (fst (ts ! i)) (snd (ts ! i))" by blast
    from rest i a have svi: "slv ! i = Some a" by simp
    from old a have ha: "h2 ! a = NumArr (fst (ts ! i)) (snd (ts ! i))" by simp
    have v2: "v < length h2" "a < length h2" "?r < length h2" "?r \<noteq> v"
      using v l2 a(2) by simp_all
    have keepP: "P h3 slv' k" if "k < i" "P h2 slv k" "slv' ! k = slv ! k"
      "length h2 \<le> length h3" "\<forall>b<length h2. b \<noteq> v \<longrightarrow> b \<noteq> ?r \<longrightarrow> h3 ! b = h2 ! b"
      for h3 slv' k
    proof (cases "length (fst (ts ! k)) = 1")
      case True
      with that(2) obtain e where e: "slv ! k = Some e" "length h < e" "e < length h2"
        "h2 ! e = NumArr (fst (ts ! k) @ [1]) (snd (ts ! k))" unfolding P_def by auto
      from e(2,3) v have "e \<noteq> v" "e \<noteq> ?r" by simp_all
      with that(5) e(3) have "h3 ! e = h2 ! e" by simp
      with e that(3,4) True show ?thesis unfolding P_def by auto
    next
      case False
      with that(2,3) show ?thesis unfolding P_def by simp
    qed
    have keepQ: "Q h3 slr' k" if "k < i" "Q h2 slr k" "slr' ! k = slr ! k"
      "length h2 \<le> length h3" "\<forall>b<length h2. b \<noteq> v \<longrightarrow> b \<noteq> ?r \<longrightarrow> h3 ! b = h2 ! b"
      for h3 slr' k
    proof -
      from that(2) obtain c where c: "slr ! k = Some c" "length h < c" "c < length h2"
        "h2 ! c = NumArr (fst (promote (ts ! k))) (snd (promote (ts ! k)))"
        unfolding Q_def by auto
      from c(2,3) v have "c \<noteq> v" "c \<noteq> ?r" by simp_all
      with that(5) c(3) have "h3 ! c = h2 ! c" by simp
      with c that(3,4) show ?thesis unfolding Q_def by auto
    qed
    show ?thesis
    proof (cases "length (fst (ts ! i)) = 1")
      case True
      let ?E = "NumArr (fst (ts ! i) @ [1]) (snd (ts ! i))"
      let ?slv = "slv[i := Some (length h2)]" and ?slr = "slr[i := Some (Suc (length h2))]"
      let ?h3 = "(h2 @ [?E, ?E])[v := ObjArr ?slv, ?r := ObjArr ?slr]"
      have run: "construct_values_step v ?r i h2 = (Inr (), ?h3)"
        using v2 sv sr i svi ha True
        by (intro construct_values_step_promote [where a = a]) simp_all
      have frame: "\<forall>b<length h2. b \<noteq> v \<longrightarrow> b \<noteq> ?r \<longrightarrow> ?h3 ! b = h2 ! b"
        by (simp add: nth_append)
      have 1: "length h < length ?h3" using l2 by simp
      have 2: "\<forall>b<length h. b \<noteq> v \<longrightarrow> ?h3 ! b = h ! b"
        using old l2 by (simp add: nth_append)
      have 3: "?h3 ! v = ObjArr ?slv" "length ?slv = ?n" using v2 sv(2) by simp_all
      have 4: "?h3 ! ?r = ObjArr ?slr" "length ?slr = ?n" using v2 sr(2) by simp_all
      have 5: "\<forall>k. Suc i \<le> k \<longrightarrow> k < ?n \<longrightarrow> ?slv ! k = sl ! k" using rest by simp
      have Pi: "P ?h3 ?slv i"
        unfolding P_def using True i sv(2) l2 v2 by (simp add: nth_append)
      have Qi: "Q ?h3 ?slr i"
        unfolding Q_def using True i sr(2) l2 v2 by (simp add: nth_append promote_def)
      have 6: "\<forall>k<Suc i. P ?h3 ?slv k \<and> Q ?h3 ?slr k"
      proof (intro allI impI)
        fix k assume k: "k < Suc i"
        show "P ?h3 ?slv k \<and> Q ?h3 ?slr k"
        proof (cases "k = i")
          case True
          with Pi Qi show ?thesis by simp
        next
          case False
          with k have ki: "k < i" by simp
          with filled have pq: "P h2 slv k" "Q h2 slr k" by simp_all
          from ki have nk: "?slv ! k = slv ! k" "?slr ! k = slr ! k" by simp_all
          have "P ?h3 ?slv k" using ki pq(1) nk(1) _ frame by (rule keepP) simp
          moreover have "Q ?h3 ?slr k" using ki pq(2) nk(2) _ frame by (rule keepQ) simp
          ultimately show ?thesis by simp
        qed
      qed
      have "I (Suc i) ?h3" unfolding I_def using 1 2 3 4 5 6 by blast
      with run show ?thesis by blast
    next
      case False
      let ?C = "NumArr (fst (ts ! i)) (snd (ts ! i))"
      let ?slr = "slr[i := Some (length h2)]"
      let ?h3 = "(h2 @ [?C])[?r := ObjArr ?slr]"
      have run: "construct_values_step v ?r i h2 = (Inr (), ?h3)"
        using v2 sv sr i svi ha False
        by (intro construct_values_step_ok [where sl = slv and a = a]) simp_all
      have frame: "\<forall>b<length h2. b \<noteq> v \<longrightarrow> b \<noteq> ?r \<longrightarrow> ?h3 ! b = h2 ! b"
        by (simp add: nth_append)
      have 1: "length h < length ?h3" using l2 by simp
      have 2: "\<forall>b<length h. b \<noteq> v \<longrightarrow> ?h3 ! b = h ! b"
        using old l2 by (simp add: nth_append)
      have 3: "?h3 ! v = ObjArr slv" "length slv = ?n" using v2 sv by (simp_all add: nth_append)
      have 4: "?h3 ! ?r = ObjArr ?slr" "length ?slr = ?n" using v2 sr(2) by simp_all
      have 5: "\<forall>k. Suc i \<le> k \<longrightarrow> k < ?n \<longrightarrow> slv ! k = sl ! k" using rest by simp
      have Pi: "P ?h3 slv i" unfolding P_def using False rest i by simp
      have Qi: "Q ?h3 ?slr i"
        unfolding Q_def using False i sr(2) l2 v2 by (simp add: nth_append promote_def)
      have 6: "\<forall>k<Suc i. P ?h3 slv k \<and> Q ?h3 ?slr k"
      proof (intro allI impI)
        fix k assume k: "k < Suc i"
        show "P ?h3 slv k \<and> Q ?h3 ?slr k"
        proof (cases "k = i")
          case True
          with Pi Qi show ?thesis by simp
        next
          case False
          with k have ki: "k < i" by simp
          with filled have pq: "P h2 slv k" "Q h2 slr k" by simp_all
          from ki have nk: "?slr ! k = slr ! k" by simp
          have "P ?h3 slv k" using ki pq(1) refl _ frame by (rule keepP) simp
          moreover have "Q ?h3 ?slr k" using ki pq(2) nk _ frame by (rule keepQ) simp
          ultimately show ?thesis by simp
        qed
      qed
      have "I (Suc i) ?h3" unfolding I_def using 1 2 3 4 5 6 by blast
      with run show ?thesis by blast
    qed
  qed
  from for_range_inv [of I ?h1 ?n "construct_values_step v ?r", OF I0 Istep]
  obtain h' where loop: "for_range ?n (construct_values_step v ?r) ?h1 = (Inr (), h')"
    and fin: "I ?n h'" by blast
  from fin obtain slv slr where l: "length h < length h'"
    and old: "\<forall>a<length h. a \<noteq> v \<longrightarrow> h' ! a = h ! a"
    and sv: "h' ! v = ObjArr slv" "length slv = ?n"
    and sr: "h' ! ?r = ObjArr slr" "length slr = ?n"
    and filled: "\<forall>k<?n. P h' slv k \<and> Q h' slr k"
    unfolding I_def by blast
  have run: "construct_values (PyArray v) h = (Inr \<lparr>IS_AOA = True, values = length h\<rparr>, h')"
    using v obj loop by (simp add: construct_values_def bnd_def load_def alloc_def ret_def)
  have el: "\<forall>k<length slr. \<exists>c. slr ! k = Some c \<and> c < length h'
      \<and> h' ! c = NumArr (fst (promote (ts ! k))) (snd (promote (ts ! k)))"
    using filled sr(2) unfolding Q_def by auto
  have "raw_tensors h' ?r = Some (map (\<lambda>k. promote (ts ! k)) [0..<length slr])"
    using l sr(1) el by (rule raw_tensors_filled)
  moreover have "map (\<lambda>k. promote (ts ! k)) [0..<length slr] = map promote ts"
    using len sr(2) by (intro map_upt_nth_list) simp
  ultimately have rt: "raw_tensors h' ?r = Some (map promote ts)" by simp
  have slots: "\<forall>k<length sl.
            if length (fst (ts ! k)) = 1
            then (\<exists>e. slv ! k = Some e \<and> length h < e \<and> e < length h'
                    \<and> h' ! e = NumArr (fst (ts ! k) @ [1]) (snd (ts ! k)))
            else slv ! k = sl ! k"
    using filled unfolding P_def by blast
  from run l old sv sr(1) slots rt show ?thesis by auto
qed

text \<open>
  C10. Let \<open>v\<close> be the address of an object array whose slots all refer to numeric
  arrays, and let the array in slot \<open>i\<close> have the one-dimensional shape \<open>[n]\<close>. Then
  \<^verbatim>\<open>Dirichlet(values=...)\<close> on it returns an array-of-arrays object and leaves the
  caller's object array changed: its slot \<open>i\<close> no longer holds the reference it held but
  refers to a new array of shape \<open>[n, 1]\<close> with the same entries. Slots whose arrays are not
  one-dimensional keep their references, and the arrays that the slots referred to are
  untouched. The new object stores its own copies, with every one-dimensional tensor in
  column shape.
\<close>

theorem construction_mutates_input:
  assumes "raw_tensors h v = Some ts" and "h ! v = ObjArr sl"
    and "i < length sl" and "fst (ts ! i) = [n]"
  shows "\<exists>d h' slv e. init PyNone (PyArray v) h = (Inr d, h') \<and> IS_AOA d
      \<and> h' ! v = ObjArr slv \<and> length slv = length sl
      \<and> slv ! i = Some e \<and> slv ! i \<noteq> sl ! i \<and> length h < e
      \<and> h' ! e = NumArr [n, 1] (snd (ts ! i))
      \<and> (\<forall>k<length sl. length (fst (ts ! k)) \<noteq> 1 \<longrightarrow> slv ! k = sl ! k)
      \<and> (\<forall>a<length h. a \<noteq> v \<longrightarrow> h' ! a = h ! a)
      \<and> values d \<noteq> v \<and> raw_tensors h' (values d) = Some (map promote ts)
      \<and> promote (ts ! i) = ([n, 1], snd (ts ! i))"
proof -
  from construct_values_promotes [OF assms(1,2)] obtain h' slv where
    run: "construct_values (PyArray v) h = (Inr \<lparr>IS_AOA = True, values = length h\<rparr>, h')"
    and old: "\<forall>a<length h. a \<noteq> v \<longrightarrow> h' ! a = h ! a"
    and sv: "h' ! v = ObjArr slv" "length slv = length sl"
    and slots: "\<forall>k<length sl.
            if length (fst (ts ! k)) = 1
            then (\<exists>e. slv ! k = Some e \<and> length h < e \<and> e < length h'
                    \<and> h' ! e = NumArr (fst (ts ! k) @ [1]) (snd (ts ! k)))
            else slv ! k = sl ! k"
    and rt: "raw_tensors h' (length h) = Some (map promote ts)" by blast
  from raw_tensors_obj [OF assms(1,2)] assms(3) obtain a where
    v: "v < length h" and a: "sl ! i = Some a" "a < length h" by blast
  from slots [rule_format, OF assms(3)] assms(4) obtain e where
    e: "slv ! i = Some e" "length h < e" "h' ! e = NumArr [n, 1] (snd (ts ! i))" by auto
  from e(1,2) a have ne: "slv ! i \<noteq> sl ! i" by simp
  have keep: "\<forall>k<length sl. length (fst (ts ! k)) \<noteq> 1 \<longrightarrow> slv ! k = sl ! k"
    using slots by auto
  have i: "init PyNone (PyArray v) h = (Inr \<lparr>IS_AOA = True, values = length h\<rparr>, h')"
    using run by (simp add: init_def)
  have p: "promote (ts ! i) = ([n, 1], snd (ts ! i))" using assms(4) by (simp add: promote_def)
  from i sv e ne keep old v rt p show ?thesis by auto
qed

theorem construction_mutates_input_witness:
  "raw_tensors [NumArr [2] [Fin 1, Fin 2], NumArr [2, 2] [Fin 1, Fin 2, Fin 3, Fin 4],
                ObjArr [Some 0, Some 1]] 2
     = Some [([2], [Fin 1, Fin 2]), ([2, 2], [Fin 1, Fin 2, Fin 3, Fin 4])]
   \<and> (\<exists>d h' slv e. init PyNone (PyArray 2)
          [NumArr [2] [Fin 1, Fin 2], NumArr [2, 2] [Fin 1, Fin 2, Fin 3, Fin 4],
           ObjArr [Some 0, Some 1]] = (Inr d, h')
        \<and> h' ! 2 = ObjArr slv \<and> slv ! 0 = Some e \<and> e \<noteq> 0
        \<and> h' ! e = NumArr [2, 1] [Fin 1, Fin 2]
        \<and> slv ! 1 = Some 1
        \<and> h' ! 0 = NumArr [2] [Fin 1, Fin 2]
        \<and> raw_tensors h' (values d)
          = Some [([2, 1], [Fin 1, Fin 2]), ([2, 2], [Fin 1, Fin 2, Fin 3, Fin 4])])"
proof -
  let ?h = "[NumArr [2] [Fin 1, Fin 2], NumArr [2, 2] [Fin 1, Fin 2, Fin 3, Fin 4],
             ObjArr [Some 0, Some 1]]"
  let ?ts = "[([2], [Fin 1, Fin 2]), ([2, 2], [Fin 1, Fin 2, Fin 3, Fin 4])] :: tensor list"
  have 1: "raw_tensors ?h 2 = Some ?ts" by (simp add: raw_tensors_def num_at_def)
  have 2: "?h ! 2 = ObjArr [Some 0, Some 1]" by simp
  have 3: "0 < length [Some (0::nat), Some 1]" by simp
  have 4: "fst (?ts ! 0) = [2]" by simp
  from construction_mutates_input [OF 1 2 3 4] obtain d h' slv e where
    run: "init PyNone (PyArray 2) ?h = (Inr d, h')"
    and sv: "h' ! 2 = ObjArr slv" "slv ! 0 = Some e" "length ?h < e"
      "h' ! e = NumArr [2, 1] (snd (?ts ! 0))"
    and keep: "\<forall>k<length [Some (0::nat), Some 1]. length (fst (?ts ! k)) \<noteq> 1
                 \<longrightarrow> slv ! k = [Some 0, Some 1] ! k"
    and old: "\<forall>a<length ?h. a \<noteq> 2 \<longrightarrow> h' ! a = ?h ! a"
    and rt: "raw_tensors h' (values d) = Some (map promote ?ts)"
    by blast
  from keep [rule_format, of 1] have k1: "slv ! 1 = Some 1" by simp
  from old [rule_format, of 0] have o0: "h' ! 0 = NumArr [2] [Fin 1, Fin 2]" by simp
  from sv(3) have e0: "e \<noteq> 0" by simp
  have pm: "map promote ?ts = [([2, 1], [Fin 1, Fin 2]), ([2, 2], [Fin 1, Fin 2, Fin 3, Fin 4])]"
    by (simp add: promote_def)
  from 1 run sv k1 o0 e0 rt show ?thesis unfolding pm by auto
qed

subsection \<open>Reading and writing by index\<close>

lemma py_index_less: "py_index n i = Some j \<Longrightarrow> j < n"
  by (auto simp: py_index_def Let_def split: if_splits)

lemma locate_bounds:
  "locate sh ks = Some (off, sel) \<Longrightarrow> off + prod_list sel \<le> prod_list sh"
proof (induction sh ks arbitrary: off rule: locate.induct)
  case (1 sh)
  then show ?case by simp
next
  case (2 i "is")
  then show ?case by simp
next
  case (3 n rest i "is")
  from "3.prems" obtain j off' where j: "py_index n i = Some j"
    and l: "locate rest is = Some (off', sel)" and off: "off = j * prod_list rest + off'"
    by (auto split: option.splits)
  from "3.IH" [OF j l] have "off' + prod_list sel \<le> prod_list rest" .
  then have "off + prod_list sel \<le> Suc j * prod_list rest" using off by simp
  also from py_index_less [OF j] have "\<dots> \<le> n * prod_list rest"
    by (intro mult_le_mono1) simp
  finally show ?case by simp
qed

lemma read_write_at:
  assumes "off + length new \<le> length dt"
  shows "take (length new) (drop off (write_at off new dt)) = new"
    and "length (write_at off new dt) = length dt"
  using assms by (simp_all add: write_at_def)

lemma np_binop_second:
  "np_binop (\<lambda>x y. y) (s1, d1) t2 = np_binop (\<lambda>x y. y) (s1, []) t2"
  by (cases t2) (simp split: option.splits)

lemma broadcast_to_length:
  assumes "broadcast_to sel t = Some new"
  shows "length new = prod_list sel"
proof -
  obtain vsh vdt where t: "t = (vsh, vdt)" by (cases t) auto
  from assms show ?thesis
    unfolding broadcast_to_def t by (auto split: option.splits if_splits)
qed

lemma broadcast_to_same:
  "length vdt = prod_list sel \<Longrightarrow> broadcast_to sel (sel, vdt) = Some vdt"
proof -
  assume l: "length vdt = prod_list sel"
  have s: "strip_ones (length sel) sel = sel" by (cases sel) simp_all
  have "np_binop (\<lambda>x y. y) (sel, replicate (prod_list sel) (Fin 0)) (sel, vdt)
      = Some (sel, map (\<lambda>k. vdt ! k) [0..<prod_list sel])"
    using l by (intro np_binop_same) simp_all
  then have "np_binop (\<lambda>x y. y) (sel, []) (sel, vdt) = Some (sel, map (\<lambda>k. vdt ! k) [0..<prod_list sel])"
    using np_binop_second [of sel "replicate (prod_list sel) (Fin 0)" "(sel, vdt)"] by simp
  moreover have "map (\<lambda>k. vdt ! k) [0..<prod_list sel] = vdt"
    using l map_nth [of vdt] by simp
  ultimately show ?thesis unfolding broadcast_to_def by (simp add: s del: np_binop.simps)
qed

lemma assigned_length: "assigned h sel val = Some new \<Longrightarrow> length new = prod_list sel"
  by (auto simp: assigned_def dest: broadcast_to_length split: pyval.splits if_splits ndarray.splits)

lemma assign_index_num:
  assumes v: "v < length h" and arr: "h ! v = NumArr sh dt"
    and key: "int_key idx = Some ks" and loc: "locate sh ks = Some (off, sel)"
    and val: "assigned h sel val = Some new"
  shows "assign_index v idx val h = (Inr (), h[v := NumArr sh (write_at off new dt)])"
proof (cases val)
  case (PyFloat x)
  with val have "new = replicate (prod_list sel) x" by (simp add: assigned_def)
  with v arr key loc PyFloat show ?thesis
    by (simp add: assign_index_def bnd_def load_def store_def)
next
  case (PyInt n)
  with val have "new = replicate (prod_list sel) (Fin (real_of_int n))" by (simp add: assigned_def)
  with v arr key loc PyInt show ?thesis
    by (simp add: assign_index_def bnd_def load_def store_def)
next
  case (PyArray b)
  with val obtain vsh vdt where b: "b < length h" "h ! b = NumArr vsh vdt"
    and bt: "broadcast_to sel (vsh, vdt) = Some new" and cell: "\<not> (sel = [] \<and> vsh \<noteq> [])"
    by (auto simp: assigned_def split: if_splits ndarray.splits)
  from bt obtain rs where nb: "np_binop (\<lambda>x y. y) (sel, []) (strip_ones (length sel) vsh, vdt)
      = Some (rs, new)" and rs: "rs = sel"
    unfolding broadcast_to_def by (auto split: option.splits if_splits)
  have nb': "np_binop (\<lambda>x y. y) (sel, take (prod_list sel) (drop off dt))
      (strip_ones (length sel) vsh, vdt) = Some (sel, new)"
    using nb rs np_binop_second [of sel "take (prod_list sel) (drop off dt)"] by simp
  have lb: "load b h = (Inr (NumArr vsh vdt), h)" using load_ok [OF b(1)] b(2) by simp
  have lv: "load v h = (Inr (NumArr sh dt), h)" using load_ok [OF v] arr by simp
  show ?thesis
    unfolding assign_index_def
    using v cell by (auto simp add: bnd_def lv key loc PyArray lb nb' store_def simp del: np_binop.simps)
qed (use val in \<open>simp_all add: assigned_def\<close>)

lemma assign_index_refused:
  assumes v: "v < length h" and arr: "h ! v = NumArr sh dt"
    and key: "int_key idx = Some ks" and loc: "locate sh ks = Some (off, sel)"
    and val: "refused h sel val"
  shows "assign_index v idx val h = (Inl (ValueError ''could not broadcast input array''), h)"
proof -
  from val obtain b vsh vdt where val': "val = PyArray b" and b: "b < length h"
    "h ! b = NumArr vsh vdt" and ne: "sel \<noteq> []" and bt: "broadcast_to sel (vsh, vdt) = None"
    by (auto simp: refused_def split: pyval.splits ndarray.splits)
  let ?c = "take (prod_list sel) (drop off dt)"
  have eq: "np_binop (\<lambda>x y. y) (sel, ?c) (strip_ones (length sel) vsh, vdt)
      = np_binop (\<lambda>x y. y) (sel, []) (strip_ones (length sel) vsh, vdt)"
    by (rule np_binop_second)
  have lb: "load b h = (Inr (NumArr vsh vdt), h)" using load_ok [OF b(1)] b(2) by simp
  have lv: "load v h = (Inr (NumArr sh dt), h)" using load_ok [OF v] arr by simp
  show ?thesis
  proof (cases "np_binop (\<lambda>x y. y) (sel, []) (strip_ones (length sel) vsh, vdt)")
    case None
    with eq have n: "np_binop (\<lambda>x y. y) (sel, ?c) (strip_ones (length sel) vsh, vdt) = None"
      by simp
    show ?thesis
      unfolding assign_index_def
      using ne by (simp add: bnd_def lv key loc val' lb n raise_def del: np_binop.simps)
  next
    case (Some r)
    obtain rs new where r: "r = (rs, new)" by (cases r) auto
    with Some bt have rs: "rs \<noteq> sel" unfolding broadcast_to_def by (auto split: if_splits)
    from Some eq r
    have n: "np_binop (\<lambda>x y. y) (sel, ?c) (strip_ones (length sel) vsh, vdt) = Some (rs, new)"
      by simp
    show ?thesis
      unfolding assign_index_def
      using ne rs by (simp add: bnd_def lv key loc val' lb n raise_def del: np_binop.simps)
  qed
qed

lemma indexing_out_of_range:
  assumes "values s < length h"
  shows "h ! values s = NumArr sh dt \<Longrightarrow> int_key key = Some ks \<Longrightarrow> locate sh ks = None \<Longrightarrow>
           getitem s key h = (Inl IndexError, h) \<and> setitem s key v h = (Inl IndexError, h)"
    and "h ! values s = ObjArr sl \<Longrightarrow> py_index (length sl) i = None \<Longrightarrow>
           getitem s (PyInt i) h = (Inl IndexError, h)
           \<and> setitem s (PyInt i) v h = (Inl IndexError, h)"
  using assms
  by (simp_all add: getitem_def setitem_def index_array_def assign_index_def bnd_def load_def
      raise_def)

lemma wrap_promoted:
  assumes a: "a < length h" and arr: "h ! a = NumArr sh dt"
  shows "\<exists>d h'. bnd (load a) (\<lambda>arr.
           bnd (if ndim arr = 1 then expand_dims1 a else ret a) (\<lambda>a'.
           bnd (construct_values (PyArray a')) (\<lambda>d.
           ret (PyDirichlet d)))) h = (Inr (PyDirichlet d), h')
      \<and> \<not> IS_AOA d \<and> length h \<le> values d \<and> extends h h'
      \<and> raw_tensors h' (values d) = Some [promote (sh, dt)]"
proof (cases "length sh = 1")
  case True
  let ?p = "NumArr (sh @ [1]) dt"
  have ld: "load a h = (Inr (NumArr sh dt), h)" using load_ok [OF a] arr by simp
  have sh: "take 1 sh @ 1 # drop 1 sh = sh @ [1]" using True by (cases sh) simp_all
  have ex: "expand_dims1 a h = (Inr (length h), h @ [?p])"
    unfolding expand_dims1_def using sh by (simp add: bnd_def ld alloc_def)
  have cv: "construct_values (PyArray (length h)) (h @ [?p])
      = (Inr \<lparr>IS_AOA = False, values = length (h @ [?p])\<rparr>, (h @ [?p]) @ [?p])"
    using True by (intro construct_values_num) simp_all
  have "bnd (load a) (\<lambda>arr.
           bnd (if ndim arr = 1 then expand_dims1 a else ret a) (\<lambda>a'.
           bnd (construct_values (PyArray a')) (\<lambda>d.
           ret (PyDirichlet d)))) h
      = (Inr (PyDirichlet \<lparr>IS_AOA = False, values = Suc (length h)\<rparr>), h @ [?p, ?p])"
    using True cv by (simp add: bnd_def ld ex ret_def)
  moreover have "extends h (h @ [?p, ?p])" by (rule extends_append)
  moreover have "raw_tensors (h @ [?p, ?p]) (Suc (length h)) = Some [promote (sh, dt)]"
    using True by (simp add: raw_tensors_def nth_append promote_def)
  ultimately show ?thesis by force
next
  case False
  let ?p = "NumArr sh dt"
  have ld: "load a h = (Inr (NumArr sh dt), h)" using load_ok [OF a] arr by simp
  have cv: "construct_values (PyArray a) h
      = (Inr \<lparr>IS_AOA = False, values = length h\<rparr>, h @ [?p])"
    using a arr False by (rule construct_values_num)
  have "bnd (load a) (\<lambda>arr.
           bnd (if ndim arr = 1 then expand_dims1 a else ret a) (\<lambda>a'.
           bnd (construct_values (PyArray a')) (\<lambda>d.
           ret (PyDirichlet d)))) h
      = (Inr (PyDirichlet \<lparr>IS_AOA = False, values = length h\<rparr>), h @ [?p])"
    using False by (simp add: bnd_def ld cv ret_def)
  moreover have "extends h (h @ [?p])" by (rule extends_append)
  moreover have "raw_tensors (h @ [?p]) (length h) = Some [promote (sh, dt)]"
    using False by (simp add: raw_tensors_def nth_append promote_def)
  ultimately show ?thesis by force
qed

lemma getitem_number:
  assumes "values self < length h" "h ! values self = NumArr sh dt"
    "int_key key = Some ks" "locate sh ks = Some (off, [])"
  shows "getitem self key h = (Inr (PyFloat (dt ! off)), h)"
  using assms by (simp add: getitem_def index_array_def bnd_def load_def ret_def)

lemma getitem_part:
  assumes v: "values self < length h" and arr: "h ! values self = NumArr sh dt"
    and key: "int_key key = Some ks" and loc: "locate sh ks = Some (off, sel)"
    and ne: "sel \<noteq> []"
  shows "\<exists>d h'. getitem self key h = (Inr (PyDirichlet d), h')
      \<and> \<not> IS_AOA d \<and> length h \<le> values d \<and> extends h h'
      \<and> raw_tensors h' (values d) = Some [promote (sel, take (prod_list sel) (drop off dt))]"
proof -
  let ?c = "take (prod_list sel) (drop off dt)"
  let ?h1 = "h @ [NumArr sel ?c]"
  have ix: "index_array (values self) key h = (Inr (PyArray (length h)), ?h1)"
    using v arr key loc ne by (simp add: index_array_def bnd_def load_def ret_def alloc_def)
  have "length h < length ?h1" "?h1 ! length h = NumArr sel ?c" by simp_all
  from wrap_promoted [OF this] obtain d h' where
    w: "bnd (load (length h)) (\<lambda>arr.
           bnd (if ndim arr = 1 then expand_dims1 (length h) else ret (length h)) (\<lambda>a'.
           bnd (construct_values (PyArray a')) (\<lambda>d.
           ret (PyDirichlet d)))) ?h1 = (Inr (PyDirichlet d), h')"
    and d: "\<not> IS_AOA d" "length ?h1 \<le> values d" "extends ?h1 h'"
      "raw_tensors h' (values d) = Some [promote (sel, ?c)]"
    by blast
  have g: "getitem self key h = (Inr (PyDirichlet d), h')"
    unfolding getitem_def bnd_def [of "index_array (values self) key"] ix
    using w by simp
  have "extends h ?h1" by (rule extends_append)
  then have "extends h h'" using d(3) by (rule extends_trans)
  with g d show ?thesis by auto
qed

lemma getitem_element:
  assumes v: "values self < length h" and arr: "h ! values self = ObjArr sl"
    and j: "py_index (length sl) i = Some j" and e: "sl ! j = Some e"
    and el: "e < length h" "h ! e = NumArr sh dt"
  shows "\<exists>d h'. getitem self (PyInt i) h = (Inr (PyDirichlet d), h')
      \<and> \<not> IS_AOA d \<and> length h \<le> values d \<and> extends h h'
      \<and> raw_tensors h' (values d) = Some [promote (sh, dt)]"
proof -
  have ix: "index_array (values self) (PyInt i) h = (Inr (PyArray e), h)"
    using v arr j e by (simp add: index_array_def bnd_def load_def ret_def)
  from wrap_promoted [OF el] obtain d h' where
    w: "bnd (load e) (\<lambda>arr.
           bnd (if ndim arr = 1 then expand_dims1 e else ret e) (\<lambda>a'.
           bnd (construct_values (PyArray a')) (\<lambda>d.
           ret (PyDirichlet d)))) h = (Inr (PyDirichlet d), h')"
    and d: "\<not> IS_AOA d" "length h \<le> values d" "extends h h'"
      "raw_tensors h' (values d) = Some [promote (sh, dt)]"
    by blast
  have g: "getitem self (PyInt i) h = (Inr (PyDirichlet d), h')"
    unfolding getitem_def bnd_def [of "index_array (values self) (PyInt i)"] ix
    using w by simp
  with d show ?thesis by auto
qed

lemma setitem_unwrap: "setitem self idx val = assign_index (values self) idx (unwrap val)"
  by (cases val) (simp_all add: setitem_def)

lemma assign_index_slot:
  assumes "v < length h" "h ! v = ObjArr sl" "py_index (length sl) i = Some j"
  shows "assign_index v (PyInt i) (PyArray b) h = (Inr (), h[v := ObjArr (sl[j := Some b])])"
  using assms by (simp add: assign_index_def bnd_def load_def store_def)

lemma wf_store_num:
  assumes "wf_store h s" "h ! values s = NumArr sh dt"
  shows "values s < length h" "length dt = prod_list sh"
proof -
  from assms(1) obtain ts where ts: "raw_tensors h (values s) = Some ts" "list_all wf_tensor ts"
    by (auto simp: wf_store_def split: option.splits)
  from ts(1) show v: "values s < length h" by (simp add: raw_tensors_def split: if_splits)
  from ts(1) v assms(2) have "ts = [(sh, dt)]" by (simp add: raw_tensors_def)
  with ts(2) show "length dt = prod_list sh" by (simp add: wf_tensor_def)
qed

lemma write_at_nth:
  assumes "off + length new \<le> length dt" "new \<noteq> []"
  shows "write_at off new dt ! off = hd new"
  using assms by (cases new) (simp_all add: write_at_def nth_append)

lemma indexing_dense:
  assumes wf: "wf_store h s" and arr: "h ! values s = NumArr sh dt"
    and key: "int_key key = Some ks" and loc: "locate sh ks = Some (off, sel)"
  shows "sel = [] \<Longrightarrow> getitem s key h = (Inr (PyFloat (dt ! off)), h)"
    and "sel \<noteq> [] \<Longrightarrow> \<exists>d h'. getitem s key h = (Inr (PyDirichlet d), h')
          \<and> \<not> IS_AOA d \<and> length h \<le> values d \<and> extends h h'
          \<and> raw_tensors h' (values d)
              = Some [promote (sel, take (prod_list sel) (drop off dt))]"
    and "assigned h sel (unwrap v) = Some new \<Longrightarrow>
          setitem s key v h = (Inr (), h[values s := NumArr sh (write_at off new dt)])"
    and "assigned h sel (unwrap v) = Some new \<Longrightarrow> sel = [] \<Longrightarrow>
          getitem s key (h[values s := NumArr sh (write_at off new dt)])
            = (Inr (PyFloat (hd new)), h[values s := NumArr sh (write_at off new dt)])"
    and "assigned h sel (unwrap v) = Some new \<Longrightarrow> sel \<noteq> [] \<Longrightarrow>
          \<exists>d h2. getitem s key (h[values s := NumArr sh (write_at off new dt)])
                   = (Inr (PyDirichlet d), h2)
            \<and> \<not> IS_AOA d \<and> length h \<le> values d
            \<and> extends (h[values s := NumArr sh (write_at off new dt)]) h2
            \<and> raw_tensors h2 (values d) = Some [promote (sel, new)]"
proof -
  note v = wf_store_num [OF wf arr]
  show "getitem s key h = (Inr (PyFloat (dt ! off)), h)" if "sel = []"
    using v(1) arr key loc that by (intro getitem_number) simp_all
  show "\<exists>d h'. getitem s key h = (Inr (PyDirichlet d), h')
          \<and> \<not> IS_AOA d \<and> length h \<le> values d \<and> extends h h'
          \<and> raw_tensors h' (values d)
              = Some [promote (sel, take (prod_list sel) (drop off dt))]" if "sel \<noteq> []"
    using v(1) arr key loc that by (rule getitem_part)
  let ?h1 = "h[values s := NumArr sh (write_at off new dt)]"
  assume a: "assigned h sel (unwrap v) = Some new"
  from assigned_length [OF a] have ln: "length new = prod_list sel" .
  from locate_bounds [OF loc] ln v(2) have bd: "off + length new \<le> length dt" by simp
  show "setitem s key v h = (Inr (), ?h1)"
    unfolding setitem_unwrap using v(1) arr key loc a by (rule assign_index_num)
  have v1: "values s < length ?h1" using v(1) by simp
  have arr1: "?h1 ! values s = NumArr sh (write_at off new dt)" using v(1) by simp
  show "getitem s key ?h1 = (Inr (PyFloat (hd new)), ?h1)" if e: "sel = []"
  proof -
    from ln e have "new \<noteq> []" by auto
    from write_at_nth [OF bd this] have "write_at off new dt ! off = hd new" .
    moreover have "getitem s key ?h1 = (Inr (PyFloat (write_at off new dt ! off)), ?h1)"
      using v1 arr1 key loc [unfolded e] by (rule getitem_number)
    ultimately show ?thesis by simp
  qed
  show "\<exists>d h2. getitem s key ?h1 = (Inr (PyDirichlet d), h2)
            \<and> \<not> IS_AOA d \<and> length h \<le> values d \<and> extends ?h1 h2
            \<and> raw_tensors h2 (values d) = Some [promote (sel, new)]" if ne: "sel \<noteq> []"
  proof -
    from read_write_at(1) [OF bd] ln
    have "take (prod_list sel) (drop off (write_at off new dt)) = new" by simp
    with getitem_part [OF v1 arr1 key loc ne] show ?thesis by simp
  qed
qed

lemma wf_store_obj:
  assumes wf: "wf_store h s" and arr: "h ! values s = ObjArr sl" and j: "j < length sl"
  shows "values s < length h"
    and "\<exists>e sh dt. sl ! j = Some e \<and> e < length h \<and> h ! e = NumArr sh dt
          \<and> tensors h s ! j = (sh, dt) \<and> length sh \<noteq> 1"
proof -
  from wf obtain ts where ts: "raw_tensors h (values s) = Some ts" "list_all wf_tensor ts"
    by (auto simp: wf_store_def split: option.splits)
  from raw_tensors_obj [OF ts(1) arr] j
  have v: "values s < length h" and len: "length ts = length sl"
    and el: "\<exists>a. sl ! j = Some a \<and> a < length h
               \<and> h ! a = NumArr (fst (ts ! j)) (snd (ts ! j))"
    by auto
  show "values s < length h" by (rule v)
  from el obtain a where a: "sl ! j = Some a" "a < length h"
    "h ! a = NumArr (fst (ts ! j)) (snd (ts ! j))" by blast
  from ts(2) len j have "wf_tensor (ts ! j)" by (simp add: list_all_length)
  then have "length (fst (ts ! j)) \<noteq> 1" by (simp add: wf_tensor_def)
  moreover have "tensors h s ! j = (fst (ts ! j), snd (ts ! j))"
    using ts(1) by (simp add: tensors_def)
  ultimately show "\<exists>e sh dt. sl ! j = Some e \<and> e < length h \<and> h ! e = NumArr sh dt
          \<and> tensors h s ! j = (sh, dt) \<and> length sh \<noteq> 1"
    using a by blast
qed

lemma indexing_slots:
  assumes wf: "wf_store h s" and arr: "h ! values s = ObjArr sl"
    and j: "py_index (length sl) i = Some j"
  shows "\<exists>d h'. getitem s (PyInt i) h = (Inr (PyDirichlet d), h')
          \<and> \<not> IS_AOA d \<and> length h \<le> values d \<and> extends h h'
          \<and> raw_tensors h' (values d) = Some [tensors h s ! j]"
    and "unwrap v = PyArray b \<Longrightarrow> num_at h (Some b) = Some t \<Longrightarrow>
          setitem s (PyInt i) v h = (Inr (), h[values s := ObjArr (sl[j := Some b])])"
    and "unwrap v = PyArray b \<Longrightarrow> num_at h (Some b) = Some t \<Longrightarrow>
          \<exists>d h2. getitem s (PyInt i) (h[values s := ObjArr (sl[j := Some b])])
                   = (Inr (PyDirichlet d), h2)
            \<and> \<not> IS_AOA d \<and> length h \<le> values d
            \<and> extends (h[values s := ObjArr (sl[j := Some b])]) h2
            \<and> raw_tensors h2 (values d) = Some [promote t]"
proof -
  from py_index_less [OF j] have jl: "j < length sl" .
  note o = wf_store_obj [OF wf arr jl]
  from o(2) obtain e sh dt where e: "sl ! j = Some e" "e < length h" "h ! e = NumArr sh dt"
    "tensors h s ! j = (sh, dt)" "length sh \<noteq> 1" by blast
  from e(5) have "promote (sh, dt) = (sh, dt)" by (simp add: promote_def)
  with getitem_element [OF o(1) arr j e(1,2,3)] e(4)
  show "\<exists>d h'. getitem s (PyInt i) h = (Inr (PyDirichlet d), h')
          \<and> \<not> IS_AOA d \<and> length h \<le> values d \<and> extends h h'
          \<and> raw_tensors h' (values d) = Some [tensors h s ! j]" by simp
  let ?h1 = "h[values s := ObjArr (sl[j := Some b])]"
  assume u: "unwrap v = PyArray b" and t: "num_at h (Some b) = Some t"
  show "setitem s (PyInt i) v h = (Inr (), ?h1)"
    unfolding setitem_unwrap u using o(1) arr j by (rule assign_index_slot)
  from t have b: "b < length h" "h ! b = NumArr (fst t) (snd t)"
    by (auto simp: num_at_def split: if_splits ndarray.splits)
  with arr have nb: "b \<noteq> values s" by auto
  have v1: "values s < length ?h1" using o(1) by simp
  have arr1: "?h1 ! values s = ObjArr (sl[j := Some b])" using o(1) by simp
  have j1: "py_index (length (sl[j := Some b])) i = Some j" using j by simp
  have e1: "(sl[j := Some b]) ! j = Some b" using jl by simp
  have b1: "b < length ?h1" "?h1 ! b = NumArr (fst t) (snd t)" using b nb by simp_all
  from getitem_element [OF v1 arr1 j1 e1 b1]
  show "\<exists>d h2. getitem s (PyInt i) ?h1 = (Inr (PyDirichlet d), h2)
            \<and> \<not> IS_AOA d \<and> length h \<le> values d \<and> extends ?h1 h2
            \<and> raw_tensors h2 (values d) = Some [promote t]" by simp
qed

lemma readsI:
  assumes "\<exists>d h'. getitem s key h = (Inr (PyDirichlet d), h')
      \<and> \<not> IS_AOA d \<and> length h \<le> values d \<and> extends h h'
      \<and> raw_tensors h' (values d) = Some [promote t]"
  shows "reads s key h t"
  using assms unfolding reads_def by auto

text \<open>
  C8, as the code has it. Let the store be well-formed and the key an integer or a tuple
  of integers.

  On a Dense store a key that is out of range, or longer than the shape, raises
  IndexError on reading and on writing, and nothing changes. Otherwise let it select the
  part of shape \<open>sel\<close> at the flat offset \<open>off\<close>. When the key fixes every axis, reading
  gives the float in that place and allocates nothing. Otherwise it gives a new Dense
  object that holds a copy of the selected entries, in column shape when the part has one
  dimension. For a right-hand side \<open>v\<close> that is a number or a numeric array that numpy
  broadcasts to the selected part (the container of \<open>v\<close> when \<open>v\<close> is a Dirichlet
  object), \<^verbatim>\<open>s[key] = v\<close> ends without an exception. It replaces the selected entries of
  the container at \<open>values s\<close> by the entries of \<open>assigned\<close>: the container stays where it
  is, numeric as the flag says and with its shape, the entries outside the part and all
  other arrays stay as they were. Reading \<^verbatim>\<open>s[key]\<close> then gives what was written: the
  number, as a float, when the key fixes every axis, and otherwise a new Dense object
  that holds the written entries. For a right-hand side that is a numeric array which
  numpy does not broadcast to a selected part with dimensions, \<^verbatim>\<open>s[key] = v\<close> raises
  ValueError and nothing changes.

  On an array-of-arrays store an integer key out of range raises IndexError on reading
  and on writing, and nothing changes. Otherwise reading gives a new Dense object with
  a copy of the tensor the slot refers to. Assigning a numeric array, or a Dirichlet
  object over one, puts the reference to that array in the slot, without a copy or a
  cast; the container stays an object array, as the flag says. Reading then gives a new
  Dense object with the entries of that array, in column shape when it has one dimension.
\<close>

theorem indexing_read_write:
  assumes wf: "wf_store h s"
  shows "(\<forall>sh dt ks off sel new.
            h ! values s = NumArr sh dt \<and> int_key key = Some ks
              \<and> locate sh ks = Some (off, sel) \<longrightarrow>
            (if sel = [] then getitem s key h = (Inr (PyFloat (dt ! off)), h)
             else reads s key h (sel, take (prod_list sel) (drop off dt)))
          \<and> (assigned h sel (unwrap v) = Some new \<longrightarrow>
               setitem s key v h = (Inr (), h[values s := NumArr sh (write_at off new dt)])
             \<and> IS_AOA s = is_obj (h[values s := NumArr sh (write_at off new dt)] ! values s)
             \<and> (if sel = []
                then getitem s key (h[values s := NumArr sh (write_at off new dt)])
                       = (Inr (PyFloat (hd new)), h[values s := NumArr sh (write_at off new dt)])
                else reads s key (h[values s := NumArr sh (write_at off new dt)]) (sel, new)))
          \<and> (refused h sel (unwrap v) \<longrightarrow>
               setitem s key v h = (Inl (ValueError ''could not broadcast input array''), h)))
       \<and> (\<forall>sl i j b t.
            h ! values s = ObjArr sl \<and> key = PyInt i \<and> py_index (length sl) i = Some j \<longrightarrow>
            reads s key h (tensors h s ! j)
          \<and> (unwrap v = PyArray b \<and> num_at h (Some b) = Some t \<longrightarrow>
               setitem s key v h = (Inr (), h[values s := ObjArr (sl[j := Some b])])
             \<and> IS_AOA s = is_obj (h[values s := ObjArr (sl[j := Some b])] ! values s)
             \<and> reads s key (h[values s := ObjArr (sl[j := Some b])]) t))
       \<and> (\<forall>sh dt ks.
            h ! values s = NumArr sh dt \<and> int_key key = Some ks \<and> locate sh ks = None \<longrightarrow>
            getitem s key h = (Inl IndexError, h) \<and> setitem s key v h = (Inl IndexError, h))
       \<and> (\<forall>sl i.
            h ! values s = ObjArr sl \<and> key = PyInt i \<and> py_index (length sl) i = None \<longrightarrow>
            getitem s key h = (Inl IndexError, h) \<and> setitem s key v h = (Inl IndexError, h))"
proof (intro conjI allI impI; (elim conjE)?)
  fix sh dt ks off sel new
  assume a: "h ! values s = NumArr sh dt" "int_key key = Some ks" "locate sh ks = Some (off, sel)"
  note D = indexing_dense [OF wf a]
  show "if sel = [] then getitem s key h = (Inr (PyFloat (dt ! off)), h)
        else reads s key h (sel, take (prod_list sel) (drop off dt))"
    using D(1) readsI [OF D(2)] by simp
  assume n: "assigned h sel (unwrap v) = Some new"
  show "setitem s key v h = (Inr (), h[values s := NumArr sh (write_at off new dt)])"
    using n by (rule D(3))
  show "IS_AOA s = is_obj (h[values s := NumArr sh (write_at off new dt)] ! values s)"
    using wf a(1) wf_store_num(1) [OF wf a(1)]
    by (simp add: wf_store_def split: option.splits)
  show "if sel = []
        then getitem s key (h[values s := NumArr sh (write_at off new dt)])
               = (Inr (PyFloat (hd new)), h[values s := NumArr sh (write_at off new dt)])
        else reads s key (h[values s := NumArr sh (write_at off new dt)]) (sel, new)"
  proof (cases "sel = []")
    case True
    with D(4) [OF n] show ?thesis by simp
  next
    case False
    from D(5) [OF n False] have "reads s key (h[values s := NumArr sh (write_at off new dt)]) (sel, new)"
      by (intro readsI) simp
    with False show ?thesis by simp
  qed
next
  fix sh dt ks off sel
  assume a: "h ! values s = NumArr sh dt" "int_key key = Some ks" "locate sh ks = Some (off, sel)"
    and r: "refused h sel (unwrap v)"
  show "setitem s key v h = (Inl (ValueError ''could not broadcast input array''), h)"
    unfolding setitem_unwrap using wf_store_num(1) [OF wf a(1)] a r by (rule assign_index_refused)
next
  fix sl i j b t
  assume a: "h ! values s = ObjArr sl" "key = PyInt i" "py_index (length sl) i = Some j"
  note S = indexing_slots [OF wf a(1,3)]
  note o = wf_store_obj [OF wf a(1) py_index_less [OF a(3)]]
  show "reads s key h (tensors h s ! j)"
  proof -
    from o(2) have "promote (tensors h s ! j) = tensors h s ! j" by (auto simp: promote_def)
    with S(1) show ?thesis unfolding a(2) by (intro readsI) simp
  qed
  assume u: "unwrap v = PyArray b" "num_at h (Some b) = Some t"
  show "setitem s key v h = (Inr (), h[values s := ObjArr (sl[j := Some b])])"
    unfolding a(2) using u by (rule S(2))
  show "IS_AOA s = is_obj (h[values s := ObjArr (sl[j := Some b])] ! values s)"
    using wf a(1) o(1) by (simp add: wf_store_def split: option.splits)
  show "reads s key (h[values s := ObjArr (sl[j := Some b])]) t"
    unfolding a(2) using S(3) [OF u] by (intro readsI) simp
next
  fix sh dt ks
  assume a: "h ! values s = NumArr sh dt" "int_key key = Some ks" "locate sh ks = None"
  from wf have v: "values s < length h"
    by (auto simp: wf_store_def raw_tensors_def split: option.splits if_splits)
  from indexing_out_of_range(1) [OF v a]
  show "getitem s key h = (Inl IndexError, h)" "setitem s key v h = (Inl IndexError, h)"
    by simp_all
next
  fix sl i
  assume a: "h ! values s = ObjArr sl" "key = PyInt i" "py_index (length sl) i = None"
  from wf have v: "values s < length h"
    by (auto simp: wf_store_def raw_tensors_def split: option.splits if_splits)
  from indexing_out_of_range(2) [OF v a(1,3)]
  show "getitem s key h = (Inl IndexError, h)" "setitem s key v h = (Inl IndexError, h)"
    unfolding a(2) by simp_all
qed

theorem indexing_read_write_witness:
  "wf_store [NumArr [2, 2] [Fin 0, Fin 2, Fin 4, Fin 0], NumArr [1, 2] [Fin 7, Fin 8],
             NumArr [2, 1] [Fin 7, Fin 8]]
     \<lparr>IS_AOA = False, values = 0\<rparr>
   \<and> reads \<lparr>IS_AOA = False, values = 0\<rparr> (PyInt 1)
       [NumArr [2, 2] [Fin 0, Fin 2, Fin 4, Fin 0], NumArr [1, 2] [Fin 7, Fin 8],
        NumArr [2, 1] [Fin 7, Fin 8]]
       ([2], [Fin 4, Fin 0])
   \<and> setitem \<lparr>IS_AOA = False, values = 0\<rparr> (PyInt 1) (PyDirichlet \<lparr>IS_AOA = False, values = 1\<rparr>)
       [NumArr [2, 2] [Fin 0, Fin 2, Fin 4, Fin 0], NumArr [1, 2] [Fin 7, Fin 8],
        NumArr [2, 1] [Fin 7, Fin 8]]
     = (Inr (), [NumArr [2, 2] [Fin 0, Fin 2, Fin 7, Fin 8], NumArr [1, 2] [Fin 7, Fin 8],
                 NumArr [2, 1] [Fin 7, Fin 8]])
   \<and> reads \<lparr>IS_AOA = False, values = 0\<rparr> (PyInt 1)
       [NumArr [2, 2] [Fin 0, Fin 2, Fin 7, Fin 8], NumArr [1, 2] [Fin 7, Fin 8],
        NumArr [2, 1] [Fin 7, Fin 8]]
       ([2], [Fin 7, Fin 8])
   \<and> setitem \<lparr>IS_AOA = False, values = 0\<rparr> (PyInt 1) (PyDirichlet \<lparr>IS_AOA = False, values = 2\<rparr>)
       [NumArr [2, 2] [Fin 0, Fin 2, Fin 4, Fin 0], NumArr [1, 2] [Fin 7, Fin 8],
        NumArr [2, 1] [Fin 7, Fin 8]]
     = (Inl (ValueError ''could not broadcast input array''),
        [NumArr [2, 2] [Fin 0, Fin 2, Fin 4, Fin 0], NumArr [1, 2] [Fin 7, Fin 8],
         NumArr [2, 1] [Fin 7, Fin 8]])
   \<and> getitem \<lparr>IS_AOA = False, values = 0\<rparr> (PyTuple [PyInt 1, PyInt (- 2)])
       [NumArr [2, 2] [Fin 0, Fin 2, Fin 4, Fin 0], NumArr [1, 2] [Fin 7, Fin 8],
        NumArr [2, 1] [Fin 7, Fin 8]]
     = (Inr (PyFloat (Fin 4)),
        [NumArr [2, 2] [Fin 0, Fin 2, Fin 4, Fin 0], NumArr [1, 2] [Fin 7, Fin 8],
         NumArr [2, 1] [Fin 7, Fin 8]])
   \<and> setitem \<lparr>IS_AOA = False, values = 0\<rparr> (PyTuple [PyInt 1, PyInt (- 2)]) (PyInt 5)
       [NumArr [2, 2] [Fin 0, Fin 2, Fin 4, Fin 0], NumArr [1, 2] [Fin 7, Fin 8],
        NumArr [2, 1] [Fin 7, Fin 8]]
     = (Inr (), [NumArr [2, 2] [Fin 0, Fin 2, Fin 5, Fin 0], NumArr [1, 2] [Fin 7, Fin 8],
                 NumArr [2, 1] [Fin 7, Fin 8]])
   \<and> getitem \<lparr>IS_AOA = False, values = 0\<rparr> (PyTuple [PyInt 1, PyInt (- 2)])
       [NumArr [2, 2] [Fin 0, Fin 2, Fin 5, Fin 0], NumArr [1, 2] [Fin 7, Fin 8],
        NumArr [2, 1] [Fin 7, Fin 8]]
     = (Inr (PyFloat (Fin 5)),
        [NumArr [2, 2] [Fin 0, Fin 2, Fin 5, Fin 0], NumArr [1, 2] [Fin 7, Fin 8],
         NumArr [2, 1] [Fin 7, Fin 8]])
   \<and> getitem \<lparr>IS_AOA = False, values = 0\<rparr> (PyInt 2)
       [NumArr [2, 2] [Fin 0, Fin 2, Fin 4, Fin 0], NumArr [1, 2] [Fin 7, Fin 8],
        NumArr [2, 1] [Fin 7, Fin 8]]
     = (Inl IndexError,
        [NumArr [2, 2] [Fin 0, Fin 2, Fin 4, Fin 0], NumArr [1, 2] [Fin 7, Fin 8],
         NumArr [2, 1] [Fin 7, Fin 8]])
   \<and> wf_store [ObjArr [Some 1, Some 2], NumArr [2, 1] [Fin 1, Fin 2],
                NumArr [3, 1] [Fin 1, Fin 2, Fin 3], NumArr [2] [Fin 7, Fin 8]]
       \<lparr>IS_AOA = True, values = 0\<rparr>
   \<and> reads \<lparr>IS_AOA = True, values = 0\<rparr> (PyInt 1)
       [ObjArr [Some 1, Some 2], NumArr [2, 1] [Fin 1, Fin 2],
        NumArr [3, 1] [Fin 1, Fin 2, Fin 3], NumArr [2] [Fin 7, Fin 8]]
       ([3, 1], [Fin 1, Fin 2, Fin 3])
   \<and> setitem \<lparr>IS_AOA = True, values = 0\<rparr> (PyInt 1) (PyArray 3)
       [ObjArr [Some 1, Some 2], NumArr [2, 1] [Fin 1, Fin 2],
        NumArr [3, 1] [Fin 1, Fin 2, Fin 3], NumArr [2] [Fin 7, Fin 8]]
     = (Inr (), [ObjArr [Some 1, Some 3], NumArr [2, 1] [Fin 1, Fin 2],
                 NumArr [3, 1] [Fin 1, Fin 2, Fin 3], NumArr [2] [Fin 7, Fin 8]])
   \<and> reads \<lparr>IS_AOA = True, values = 0\<rparr> (PyInt 1)
       [ObjArr [Some 1, Some 3], NumArr [2, 1] [Fin 1, Fin 2],
        NumArr [3, 1] [Fin 1, Fin 2, Fin 3], NumArr [2] [Fin 7, Fin 8]]
       ([2], [Fin 7, Fin 8])
   \<and> setitem \<lparr>IS_AOA = True, values = 0\<rparr> (PyInt 2) (PyArray 3)
       [ObjArr [Some 1, Some 2], NumArr [2, 1] [Fin 1, Fin 2],
        NumArr [3, 1] [Fin 1, Fin 2, Fin 3], NumArr [2] [Fin 7, Fin 8]]
     = (Inl IndexError,
        [ObjArr [Some 1, Some 2], NumArr [2, 1] [Fin 1, Fin 2],
         NumArr [3, 1] [Fin 1, Fin 2, Fin 3], NumArr [2] [Fin 7, Fin 8]])"
proof -
  let ?h = "[NumArr [2, 2] [Fin 0, Fin 2, Fin 4, Fin 0], NumArr [1, 2] [Fin 7, Fin 8],
             NumArr [2, 1] [Fin 7, Fin 8]]"
  let ?s = "\<lparr>IS_AOA = False, values = 0\<rparr>"
  let ?v = "PyDirichlet \<lparr>IS_AOA = False, values = 1\<rparr>"
  let ?w = "PyDirichlet \<lparr>IS_AOA = False, values = 2\<rparr>"
  let ?k = "PyTuple [PyInt 1, PyInt (- 2)]"
  have wf: "wf_store ?h ?s" by (simp add: wf_store_def raw_tensors_def wf_tensor_def)
  have row: "?h ! values ?s = NumArr [2, 2] [Fin 0, Fin 2, Fin 4, Fin 0]
      \<and> int_key (PyInt 1) = Some [1] \<and> locate [2, 2] [1] = Some (2, [2])"
    by (simp add: py_index_def)
  have new: "assigned ?h [2] (unwrap ?v) = Some [Fin 7, Fin 8]"
    by (simp add: assigned_def broadcast_to_def broadcast_shapes_def bidx_def upt_conv_Cons)
  note R = indexing_read_write [OF wf, of "PyInt 1" ?v, THEN conjunct1, rule_format, OF row]
  from R [of "[Fin 7, Fin 8]", THEN conjunct1]
  have 1: "reads ?s (PyInt 1) ?h ([2], [Fin 4, Fin 0])" by (simp add: numeral_2_eq_2)
  note R2 = R [THEN conjunct2, THEN conjunct1, THEN mp, OF new]
  from R2 [THEN conjunct1]
  have 2: "setitem ?s (PyInt 1) ?v ?h
        = (Inr (), [NumArr [2, 2] [Fin 0, Fin 2, Fin 7, Fin 8], NumArr [1, 2] [Fin 7, Fin 8],
                    NumArr [2, 1] [Fin 7, Fin 8]])"
    by (simp add: write_at_def numeral_2_eq_2)
  from R2 [THEN conjunct2, THEN conjunct2]
  have 3: "reads ?s (PyInt 1)
        [NumArr [2, 2] [Fin 0, Fin 2, Fin 7, Fin 8], NumArr [1, 2] [Fin 7, Fin 8],
         NumArr [2, 1] [Fin 7, Fin 8]]
        ([2], [Fin 7, Fin 8])"
    by (simp add: write_at_def numeral_2_eq_2)
  have ref: "refused ?h [2] (unwrap ?w)"
    by (simp add: refused_def broadcast_to_def broadcast_shapes_def)
  from indexing_read_write [OF wf, of "PyInt 1" ?w, THEN conjunct1, rule_format, OF row,
      of "[]", THEN conjunct2, THEN conjunct2, THEN mp, OF ref]
  have 4: "setitem ?s (PyInt 1) ?w ?h
        = (Inl (ValueError ''could not broadcast input array''), ?h)" .
  have cell: "?h ! values ?s = NumArr [2, 2] [Fin 0, Fin 2, Fin 4, Fin 0]
      \<and> int_key ?k = Some [1, - 2] \<and> locate [2, 2] [1, - 2] = Some (2, [])"
    by (simp add: py_index_def)
  have five: "assigned ?h [] (unwrap (PyInt 5)) = Some [Fin 5]" by (simp add: assigned_def)
  note C = indexing_read_write [OF wf, of ?k "PyInt 5", THEN conjunct1, rule_format, OF cell]
  from C [of "[]", THEN conjunct1]
  have 5: "getitem ?s ?k ?h = (Inr (PyFloat (Fin 4)), ?h)" by (simp add: numeral_2_eq_2)
  note C2 = C [THEN conjunct2, THEN conjunct1, THEN mp, OF five]
  from C2 [THEN conjunct1]
  have 6: "setitem ?s ?k (PyInt 5) ?h
        = (Inr (), [NumArr [2, 2] [Fin 0, Fin 2, Fin 5, Fin 0], NumArr [1, 2] [Fin 7, Fin 8],
                    NumArr [2, 1] [Fin 7, Fin 8]])"
    by (simp add: write_at_def numeral_2_eq_2)
  from C2 [THEN conjunct2, THEN conjunct2]
  have 7: "getitem ?s ?k
        [NumArr [2, 2] [Fin 0, Fin 2, Fin 5, Fin 0], NumArr [1, 2] [Fin 7, Fin 8],
         NumArr [2, 1] [Fin 7, Fin 8]]
        = (Inr (PyFloat (Fin 5)),
           [NumArr [2, 2] [Fin 0, Fin 2, Fin 5, Fin 0], NumArr [1, 2] [Fin 7, Fin 8],
            NumArr [2, 1] [Fin 7, Fin 8]])"
    by (simp add: write_at_def numeral_2_eq_2)
  have out: "?h ! values ?s = NumArr [2, 2] [Fin 0, Fin 2, Fin 4, Fin 0]
      \<and> int_key (PyInt 2) = Some [2] \<and> locate [2, 2] [2] = None"
    by (simp add: py_index_def)
  from indexing_read_write [OF wf, of "PyInt 2" ?v, THEN conjunct2, THEN conjunct2,
      THEN conjunct1, rule_format, OF out, THEN conjunct1]
  have 8: "getitem ?s (PyInt 2) ?h = (Inl IndexError, ?h)" .
  let ?g = "[ObjArr [Some 1, Some 2], NumArr [2, 1] [Fin 1, Fin 2],
             NumArr [3, 1] [Fin 1, Fin 2, Fin 3], NumArr [2] [Fin 7, Fin 8]]"
  let ?a = "\<lparr>IS_AOA = True, values = 0\<rparr>"
  have wfa: "wf_store ?g ?a"
    by (simp add: wf_store_def raw_tensors_def num_at_def wf_tensor_def)
  have slot: "?g ! values ?a = ObjArr [Some 1, Some 2] \<and> PyInt 1 = PyInt 1
      \<and> py_index (length [Some (1::nat), Some 2]) 1 = Some 1"
    by (simp add: py_index_def)
  have rhs: "unwrap (PyArray 3) = PyArray 3 \<and> num_at ?g (Some 3) = Some ([2], [Fin 7, Fin 8])"
    by (simp add: num_at_def)
  note A = indexing_read_write [OF wfa, of "PyInt 1" "PyArray 3", THEN conjunct2,
      THEN conjunct1, rule_format, OF slot]
  from A [of 3 "([2], [Fin 7, Fin 8])", THEN conjunct1]
  have 9: "reads ?a (PyInt 1) ?g ([3, 1], [Fin 1, Fin 2, Fin 3])"
    by (simp add: tensors_def raw_tensors_def num_at_def)
  note A2 = A [THEN conjunct2, THEN mp, OF rhs]
  from A2 [THEN conjunct1]
  have 10: "setitem ?a (PyInt 1) (PyArray 3) ?g
        = (Inr (), [ObjArr [Some 1, Some 3], NumArr [2, 1] [Fin 1, Fin 2],
                    NumArr [3, 1] [Fin 1, Fin 2, Fin 3], NumArr [2] [Fin 7, Fin 8]])"
    by simp
  from A2 [THEN conjunct2, THEN conjunct2]
  have 11: "reads ?a (PyInt 1)
        [ObjArr [Some 1, Some 3], NumArr [2, 1] [Fin 1, Fin 2],
         NumArr [3, 1] [Fin 1, Fin 2, Fin 3], NumArr [2] [Fin 7, Fin 8]]
        ([2], [Fin 7, Fin 8])"
    by simp
  have outa: "?g ! values ?a = ObjArr [Some 1, Some 2] \<and> PyInt 2 = PyInt 2
      \<and> py_index (length [Some (1::nat), Some 2]) 2 = None"
    by (simp add: py_index_def)
  from indexing_read_write [OF wfa, of "PyInt 2" "PyArray 3", THEN conjunct2, THEN conjunct2,
      THEN conjunct2, rule_format, OF outa, THEN conjunct2]
  have 12: "setitem ?a (PyInt 2) (PyArray 3) ?g = (Inl IndexError, ?g)" .
  from wf 1 2 3 4 5 6 7 8 wfa 9 10 11 12 show ?thesis by (intro conjI)
qed

text \<open>
  The round trip needs the hypothesis on the right-hand side. What a read returns cannot
  always be written back: on the Dense store with the rows \<open>[0, 2]\<close> and \<open>[4, 0]\<close>,
  \<^verbatim>\<open>s[0]\<close> is a Dirichlet object of shape \<open>[2, 1]\<close>, and \<^verbatim>\<open>s[1] = s[0]\<close> raises ValueError,
  since numpy does not broadcast the shape \<open>[2, 1]\<close> to the shape \<open>[2]\<close> of a row. Nothing
  is written.
\<close>

theorem indexing_roundtrip_counterexample:
  "wf_store [NumArr [2, 2] [Fin 0, Fin 2, Fin 4, Fin 0]] \<lparr>IS_AOA = False, values = 0\<rparr>
   \<and> getitem \<lparr>IS_AOA = False, values = 0\<rparr> (PyInt 0) [NumArr [2, 2] [Fin 0, Fin 2, Fin 4, Fin 0]]
     = (Inr (PyDirichlet \<lparr>IS_AOA = False, values = 3\<rparr>),
        [NumArr [2, 2] [Fin 0, Fin 2, Fin 4, Fin 0], NumArr [2] [Fin 0, Fin 2],
         NumArr [2, 1] [Fin 0, Fin 2], NumArr [2, 1] [Fin 0, Fin 2]])
   \<and> setitem \<lparr>IS_AOA = False, values = 0\<rparr> (PyInt 1) (PyDirichlet \<lparr>IS_AOA = False, values = 3\<rparr>)
       [NumArr [2, 2] [Fin 0, Fin 2, Fin 4, Fin 0], NumArr [2] [Fin 0, Fin 2],
        NumArr [2, 1] [Fin 0, Fin 2], NumArr [2, 1] [Fin 0, Fin 2]]
     = (Inl (ValueError ''could not broadcast input array''),
        [NumArr [2, 2] [Fin 0, Fin 2, Fin 4, Fin 0], NumArr [2] [Fin 0, Fin 2],
         NumArr [2, 1] [Fin 0, Fin 2], NumArr [2, 1] [Fin 0, Fin 2]])"
proof (intro conjI)
  show "wf_store [NumArr [2, 2] [Fin 0, Fin 2, Fin 4, Fin 0]] \<lparr>IS_AOA = False, values = 0\<rparr>"
    by (simp add: wf_store_def raw_tensors_def wf_tensor_def)
  show "getitem \<lparr>IS_AOA = False, values = 0\<rparr> (PyInt 0) [NumArr [2, 2] [Fin 0, Fin 2, Fin 4, Fin 0]]
     = (Inr (PyDirichlet \<lparr>IS_AOA = False, values = 3\<rparr>),
        [NumArr [2, 2] [Fin 0, Fin 2, Fin 4, Fin 0], NumArr [2] [Fin 0, Fin 2],
         NumArr [2, 1] [Fin 0, Fin 2], NumArr [2, 1] [Fin 0, Fin 2]])"
    by (simp add: getitem_def index_array_def py_index_def bnd_def load_def alloc_def ret_def
        expand_dims1_def construct_values_def astype_float64_def numeral_2_eq_2)
  show "setitem \<lparr>IS_AOA = False, values = 0\<rparr> (PyInt 1) (PyDirichlet \<lparr>IS_AOA = False, values = 3\<rparr>)
       [NumArr [2, 2] [Fin 0, Fin 2, Fin 4, Fin 0], NumArr [2] [Fin 0, Fin 2],
        NumArr [2, 1] [Fin 0, Fin 2], NumArr [2, 1] [Fin 0, Fin 2]]
     = (Inl (ValueError ''could not broadcast input array''),
        [NumArr [2, 2] [Fin 0, Fin 2, Fin 4, Fin 0], NumArr [2] [Fin 0, Fin 2],
         NumArr [2, 1] [Fin 0, Fin 2], NumArr [2, 1] [Fin 0, Fin 2]])"
    by (simp add: setitem_def assign_index_def py_index_def bnd_def load_def raise_def
        broadcast_shapes_def numeral_2_eq_2)
qed

end
